theory Spec2Isabelle
  imports Main
begin


section \<open>Strings of the host language\<close>

text \<open>
  A string is a list of code units; a \<^typ>\<open>char\<close> stands for a code unit below 256.
  The white space of \<^verbatim>\<open>\s\<close> and of \<^verbatim>\<open>trim\<close> in that range is TAB, LF, VT, FF, CR,
  SPACE and NBSP; the line terminators that \<^verbatim>\<open>.\<close> refuses are LF and CR.
\<close>

definition isSpace :: "char \<Rightarrow> bool" where
  "isSpace c = (c \<in> set [CHR 0x09, CHR 0x0A, CHR 0x0B, CHR 0x0C, CHR 0x0D, CHR 0x20, CHR 0xA0])"

definition isLineTerminator :: "char \<Rightarrow> bool" where
  "isLineTerminator c = (c \<in> set [CHR 0x0A, CHR 0x0D])"

definition nonSpace :: "char \<Rightarrow> bool" where
  "nonSpace c = (\<not> isSpace c)"

definition anyChar :: "char \<Rightarrow> bool" where
  "anyChar c = (\<not> isLineTerminator c)"

text \<open>\<^verbatim>\<open>s.trim()\<close>: white space removed at both ends.\<close>

definition trim :: "string \<Rightarrow> string" where
  "trim s = rev (dropWhile isSpace (rev (dropWhile isSpace s)))"

text \<open>\<^verbatim>\<open>s.startsWith(p)\<close>.\<close>

definition startsWith :: "string \<Rightarrow> string \<Rightarrow> bool" where
  "startsWith s p = (take (length p) s = p)"

text \<open>\<^verbatim>\<open>s.split(sep)\<close> for a separator of one code unit: the empty string gives one empty piece.\<close>

fun splitOn :: "char \<Rightarrow> string \<Rightarrow> string list" where
  "splitOn sep [] = [[]]"
| "splitOn sep (c # cs) =
     (if c = sep then [] # splitOn sep cs
      else (case splitOn sep cs of
              [] \<Rightarrow> [[c]]
            | l # ls \<Rightarrow> (c # l) # ls))"

section \<open>Regular expressions, by backtracking\<close>

text \<open>
  The two patterns of the program are sequences of a literal, a greedy \<^verbatim>\<open>*\<close> and a greedy
  \<^verbatim>\<open>+\<close> over a character class. A match of a sequence at the start of a string tries, for
  each greedy piece, the longest run first and gives back one code unit at a time; the
  result lists what each piece consumed. \<open>regexExec\<close> tries the start positions from the
  left, as an unanchored pattern does.
\<close>

datatype piece = Lit char | Star "char \<Rightarrow> bool" | Plus "char \<Rightarrow> bool"

fun firstSome :: "('a \<Rightarrow> 'b option) \<Rightarrow> 'a list \<Rightarrow> 'b option" where
  "firstSome f [] = None"
| "firstSome f (x # xs) = (case f x of Some y \<Rightarrow> Some y | None \<Rightarrow> firstSome f xs)"

primrec matchHere :: "piece list \<Rightarrow> string \<Rightarrow> string list option" where
  "matchHere [] s = Some []"
| "matchHere (p # ps) s =
     (case p of
        Lit c \<Rightarrow>
          (case s of
             [] \<Rightarrow> None
           | x # t \<Rightarrow> if x = c then map_option (\<lambda>caps. [c] # caps) (matchHere ps t) else None)
      | Star P \<Rightarrow>
          firstSome (\<lambda>k. map_option (\<lambda>caps. take k s # caps) (matchHere ps (drop k s)))
            (rev [0 ..< Suc (length (takeWhile P s))])
      | Plus P \<Rightarrow>
          firstSome (\<lambda>k. map_option (\<lambda>caps. take k s # caps) (matchHere ps (drop k s)))
            (rev [1 ..< Suc (length (takeWhile P s))]))"

definition regexExec :: "piece list \<Rightarrow> string \<Rightarrow> string list option" where
  "regexExec ps s = firstSome (\<lambda>i. matchHere ps (drop i s)) [0 ..< Suc (length s)]"

section \<open>The Gradle task report\<close>

record QuickPickItem =
  label :: string
  detail :: string

text \<open>The pattern \<^verbatim>\<open>/(\S+)\s*-\s*(.*)/\<close>; its groups are the first and the last piece.\<close>

definition taskPattern :: "piece list" where
  "taskPattern = [Plus nonSpace, Star isSpace, Lit CHR ''-'', Star isSpace, Star anyChar]"

text \<open>\<^verbatim>\<open>line.match(/(\S+)\s*-\s*(.*)/)\<close>, reduced to \<^verbatim>\<open>info[1]\<close> and \<^verbatim>\<open>info[2]\<close>.\<close>

definition matchTask :: "string \<Rightarrow> (string \<times> string) option" where
  "matchTask line =
     (case regexExec taskPattern line of
        Some [g1, w1, h, w2, g2] \<Rightarrow> Some (g1, g2)
      | _ \<Rightarrow> None)"

text \<open>
  The body of the \<^verbatim>\<open>forEach\<close> callback of \<^verbatim>\<open>parseAvailableGradleGoals\<close>; the state is the
  flag \<^verbatim>\<open>process\<close> and the array \<^verbatim>\<open>goals\<close>. A blank line clears the flag and then goes on
  to the divider test and the pattern, as the source has no \<^verbatim>\<open>else\<close> there.
\<close>

definition lineStep :: "string \<Rightarrow> bool \<times> QuickPickItem list \<Rightarrow> string \<Rightarrow> bool \<times> QuickPickItem list" where
  "lineStep category st line =
     (case st of (process, goals) \<Rightarrow>
        if process then
          (let process' = (if length line = 0 then False else process) in
           if \<not> startsWith line ''---'' then
             (case matchTask line of
                Some (g1, g2) \<Rightarrow> (process', goals @ [\<lparr>label = g1, detail = g2\<rparr>])
              | None \<Rightarrow> (process', goals))
           else (process', goals))
        else if line = category then (True, goals)
        else (process, goals))"

definition parseAvailableGradleGoals :: "string \<Rightarrow> string \<Rightarrow> QuickPickItem list" where
  "parseAvailableGradleGoals out category =
     snd (foldl (lineStep category) (False, []) (map trim (splitOn CHR 0x0A out)))"

section \<open>The host: workspace, processes, user interface\<close>

text \<open>
  Everything the program reads from outside is a field of the host: the platform, the
  answers of \<^verbatim>\<open>vscode.workspace.findFiles\<close>, of \<^verbatim>\<open>cp.execFileSync\<close>, of \<^verbatim>\<open>getJavaHome\<close>
  and \<^verbatim>\<open>findExecutable\<close> (module \<^verbatim>\<open>./utils\<close>), of the \<^verbatim>\<open>path\<close> module, the choices of
  the user in the pick list and in the notification, and the names of the open terminals.
  A value that may be \<^verbatim>\<open>undefined\<close> is an option. The calls of the user interface
  return their answer; \<^verbatim>\<open>execFileSync\<close> returns the output of the process or throws.
\<close>

datatype error = Error string | ExecError string

record Uri =
  fsPath :: string

record Goals =
  buildGoals :: "QuickPickItem list"
  deployGoals :: "QuickPickItem list"

text \<open>
  The second parameter of \<^verbatim>\<open>build\<close> indexes the catalog (\<^verbatim>\<open>goals[group as keyof Goals]\<close>):
  it is one of the two keys of \<^verbatim>\<open>Goals\<close>.
\<close>

datatype GoalsKey = BuildKey | DeployKey

fun keyName :: "GoalsKey \<Rightarrow> string" where
  "keyName BuildKey = ''build''"
| "keyName DeployKey = ''deploy''"

fun goalsAt :: "Goals \<Rightarrow> GoalsKey \<Rightarrow> QuickPickItem list" where
  "goalsAt g BuildKey = buildGoals g"
| "goalsAt g DeployKey = deployGoals g"

record Host =
  win32 :: bool
  findFiles :: "string \<Rightarrow> string \<Rightarrow> Uri list"
  execFileSync :: "string \<Rightarrow> string list \<Rightarrow> error + string"
  pathDirname :: "string \<Rightarrow> string"
  pathJoin :: "string \<Rightarrow> string \<Rightarrow> string"
  pathDelimiter :: string
  envPATH :: "string option"
  getJavaHome :: "string option"
  findExecutable :: "string \<Rightarrow> string \<Rightarrow> string option"
  showQuickPick :: "QuickPickItem list \<Rightarrow> string \<Rightarrow> QuickPickItem option"
  showInformationMessage :: "string \<Rightarrow> string list \<Rightarrow> string option"
  terminals :: "string list"

text \<open>What a run does to the outside, in order.\<close>

datatype effect =
    ShowQuickPick "QuickPickItem list" string
  | ShowInformationMessage string "string list"
  | ShowWarningMessage string
  | ExecuteCommand string "string list"
  | TerminalDispose string
  | CreateTerminal string "(string \<times> string) list"
  | TerminalShow
  | TerminalSendText string

record Outcome =
  effects :: "effect list"
  terminalsAfter :: "string list"
  thrown :: "error option"

text \<open>A string that may be undefined counts as true when it is defined and not empty.\<close>

fun truthy :: "string option \<Rightarrow> bool" where
  "truthy None = False"
| "truthy (Some s) = (s \<noteq> [])"

definition MICRONAUT :: string where
  "MICRONAUT = ''Micronaut''"

definition NATIVE_IMAGE :: string where
  "NATIVE_IMAGE = ''native-image''"

section \<open>Locating the wrapper\<close>

text \<open>
  \<^verbatim>\<open>buildWrapper\<close>: the rest arguments are the ones the two handlers are closed over.
\<close>

definition buildWrapper :: "Host \<Rightarrow> (Uri \<Rightarrow> 'a) option \<Rightarrow> (Uri \<Rightarrow> 'a) option \<Rightarrow> 'a option" where
  "buildWrapper h gradle maven =
     (let wrapper = findFiles h (if win32 h then ''**/gradlew.bat'' else ''**/gradlew'') ''**/node_modules/**''
      in case (gradle, wrapper) of
           (Some g, w # ws) \<Rightarrow> Some (g w)
         | _ \<Rightarrow>
           (let wrapper = findFiles h (if win32 h then ''**/mvnw.bat'' else ''**/mvnw'') ''**/node_modules/**''
            in case (maven, wrapper) of
                 (Some m, w # ws) \<Rightarrow> Some (m w)
               | _ \<Rightarrow> None))"

section \<open>Command synthesis\<close>

text \<open>
  \<^verbatim>\<open>fsPath.replace(/(\s+)/g, '\\$1')\<close>: from the left, each longest run of white space is
  replaced by a backslash and the run itself; every other code unit is copied.
\<close>

function escapeSpaces :: "string \<Rightarrow> string" where
  "escapeSpaces [] = []"
| "escapeSpaces (c # cs) =
     (if isSpace c
      then CHR 0x5C # takeWhile isSpace (c # cs) @ escapeSpaces (dropWhile isSpace cs)
      else c # escapeSpaces cs)"
  by pat_completeness auto
termination
proof (relation "measure length")
  fix c :: char and cs :: string
  have "length (dropWhile isSpace cs) \<le> length cs"
    by (rule length_dropWhile_le)
  then show "(dropWhile isSpace cs, c # cs) \<in> measure length"
    by simp
qed simp_all

definition terminalGradleCommandFor :: "Uri \<Rightarrow> string \<Rightarrow> string option" where
  "terminalGradleCommandFor wrapper goal =
     (let exec = escapeSpaces (fsPath wrapper)
      in if exec \<noteq> [] then Some (exec @ '' '' @ goal @ '' --no-daemon'') else None)"

definition terminalMavenCommandFor :: "Uri \<Rightarrow> string \<Rightarrow> string option" where
  "terminalMavenCommandFor wrapper goal =
     (let exec = escapeSpaces (fsPath wrapper)
      in if exec \<noteq> [] then
           (let command =
                  (if goal = ''build'' then ''compile''
                   else if goal = ''nativeImage'' then ''package -Dpackaging=native-image''
                   else if goal = ''dockerBuild'' then ''package -Dpackaging=docker''
                   else if goal = ''dockerBuildNative'' then ''package -Dpackaging=docker-native''
                   else if goal = ''dockerPush'' then ''deploy -Dpackaging=docker''
                   else if goal = ''dockerPushNative'' then ''deploy -Dpackaging=docker-native''
                   else goal)
            in if command \<noteq> [] then Some (exec @ '' '' @ command) else None)
         else None)"

definition terminalCommandFor :: "Host \<Rightarrow> string \<Rightarrow> string option" where
  "terminalCommandFor h goal =
     (case buildWrapper h (Some (\<lambda>w. terminalGradleCommandFor w goal))
                          (Some (\<lambda>w. terminalMavenCommandFor w goal)) of
        Some r \<Rightarrow> r
      | None \<Rightarrow> None)"

section \<open>The goal catalog\<close>

definition getAvailableGradleGoals :: "Host \<Rightarrow> Uri \<Rightarrow> error + Goals" where
  "getAvailableGradleGoals h wrapper =
     (case execFileSync h (fsPath wrapper)
             [''tasks'', ''--no-daemon'', ''--project-dir='' @ pathDirname h (fsPath wrapper)] of
        Inl e \<Rightarrow> Inl e
      | Inr out \<Rightarrow>
          Inr \<lparr>buildGoals = parseAvailableGradleGoals out ''Build tasks'',
               deployGoals = parseAvailableGradleGoals out ''Upload tasks''\<rparr>)"

definition getAvailableMavenGoals :: Goals where
  "getAvailableMavenGoals =
     \<lparr>buildGoals =
        [\<lparr>label = ''clean'', detail = ''Cleans the project''\<rparr>,
         \<lparr>label = ''compile'', detail = ''Compiles the source code of the project''\<rparr>,
         \<lparr>label = ''package'', detail = ''Packages the compiled code in its distributable format''\<rparr>,
         \<lparr>label = ''nativeImage'', detail = ''Packages the compiled code as a GraalVM native image''\<rparr>,
         \<lparr>label = ''dockerBuild'', detail = ''Builds a Docker image with the application artifacts''\<rparr>,
         \<lparr>label = ''dockerBuildNative'', detail = ''Builds a Docker image with a GraalVM native image inside''\<rparr>],
      deployGoals =
        [\<lparr>label = ''dockerPush'', detail = ''Pushes a Docker Image''\<rparr>,
         \<lparr>label = ''dockerPushNative'', detail = ''Pushes a Native Docker Image using GraalVM''\<rparr>]\<rparr>"

text \<open>\<^verbatim>\<open>builderInit\<close>: the value stored in the global \<^verbatim>\<open>goals\<close>, or the error thrown.\<close>

definition builderInit :: "Host \<Rightarrow> error + Goals" where
  "builderInit h =
     (case buildWrapper h (Some (getAvailableGradleGoals h)) (Some (\<lambda>w. Inr getAvailableMavenGoals)) of
        Some r \<Rightarrow> r
      | None \<Rightarrow> Inr \<lparr>buildGoals = [], deployGoals = []\<rparr>)"

section \<open>The build action\<close>

text \<open>
  The first part of \<^verbatim>\<open>build\<close>: the goal after the block \<^verbatim>\<open>if (!goal) { ... }\<close>, with what
  was shown to the user on the way.
\<close>

definition chooseGoal :: "Host \<Rightarrow> QuickPickItem list \<Rightarrow> GoalsKey \<Rightarrow> string option \<Rightarrow> effect list \<times> string option" where
  "chooseGoal h items grp goal =
     (if \<not> truthy goal then
        (if length items = 0 then ([], Some ''build'')
         else
           (let placeHolder = ''Select '' @ keyName grp @ '' goal to invoke'';
                (shown, selected) =
                  (if length items > 1
                   then ([ShowQuickPick items placeHolder], showQuickPick h items placeHolder)
                   else if length items = 1 then ([], Some (hd items))
                   else ([], None))
            in case selected of
                 Some item \<Rightarrow> (shown, Some (label item))
               | None \<Rightarrow> (shown, goal)))
      else ([], goal))"

text \<open>
  The check for \<^verbatim>\<open>native-image\<close> inside \<^verbatim>\<open>if (javaHome && ...)\<close>: what was shown and
  run, and whether the function returned there.
\<close>

definition checkNativeImage :: "Host \<Rightarrow> string \<Rightarrow> effect list \<times> bool" where
  "checkNativeImage h javaHome =
     (let nativeImage = findExecutable h NATIVE_IMAGE javaHome
      in if \<not> truthy nativeImage then
           (let gu = findExecutable h ''gu'' javaHome
            in if truthy gu then
                 (let message = NATIVE_IMAGE @ '' is not installed in your GraalVM'';
                      action = ''Install '' @ NATIVE_IMAGE;
                      selected = showInformationMessage h message [action]
                  in if selected = Some action then
                       ([ShowInformationMessage message [action],
                         ExecuteCommand ''extension.graalvm.installGraalVMComponent'' [NATIVE_IMAGE, javaHome]],
                        True)
                     else ([ShowInformationMessage message [action]], False))
               else ([ShowWarningMessage (''native-image is missing in '' @ javaHome)], False))
         else ([], False))"

text \<open>The last part: the command is sent to a fresh terminal, or the error is thrown.\<close>

definition sendToTerminal :: "Host \<Rightarrow> string option \<Rightarrow> string \<Rightarrow> string option \<Rightarrow> effect list \<times> string list \<times> error option" where
  "sendToTerminal h javaHome goal command =
     (if truthy command then
        (let disposed = (if MICRONAUT \<in> set (terminals h) then [TerminalDispose MICRONAUT] else []);
             env = (if truthy javaHome
                    then [(''JAVA_HOME'', the javaHome),
                          (''PATH'', pathJoin h (the javaHome) ''bin'' @ pathDelimiter h @
                                     (case envPATH h of Some p \<Rightarrow> p | None \<Rightarrow> ''undefined''))]
                    else [])
         in (disposed @ [CreateTerminal MICRONAUT env, TerminalShow, TerminalSendText (the command)],
             remove1 MICRONAUT (terminals h) @ [MICRONAUT],
             None))
      else ([], terminals h, Some (Error (''No terminal command for '' @ goal))))"

definition build :: "Host \<Rightarrow> Goals \<Rightarrow> string option \<Rightarrow> GoalsKey option \<Rightarrow> Outcome" where
  "build h goals goal grp =
     (let key = (case grp of Some g \<Rightarrow> g | None \<Rightarrow> BuildKey);
          items = goalsAt goals key;
          (shown, goal) = chooseGoal h items key goal
      in if truthy goal then
           (let javaHome = getJavaHome h;
                (checked, returned) =
                  (if truthy javaHome \<and> (the goal = ''nativeImage'' \<or> the goal = ''dockerBuildNative'')
                   then checkNativeImage h (the javaHome)
                   else ([], False))
            in if returned
               then \<lparr>effects = shown @ checked, terminalsAfter = terminals h, thrown = None\<rparr>
               else
                 (let command = terminalCommandFor h (the goal);
                      (sent, terms, err) = sendToTerminal h javaHome (the goal) command
                  in \<lparr>effects = shown @ checked @ sent, terminalsAfter = terms, thrown = err\<rparr>))
         else \<lparr>effects = shown, terminalsAfter = terminals h, thrown = None\<rparr>)"

section \<open>Vocabulary of the properties\<close>

subsection \<open>What a match is\<close>

text \<open>
  A piece and the text it consumed: the literal itself, a run of the class, a run of the
  class that is not empty.
\<close>

fun conforms :: "piece \<Rightarrow> string \<Rightarrow> bool" where
  "conforms (Lit c) s = (s = [c])"
| "conforms (Star P) s = list_all P s"
| "conforms (Plus P) s = (s \<noteq> [] \<and> list_all P s)"

subsection \<open>Escaping, as the specification words it\<close>

text \<open>
  Each run of white space is prefixed with a backslash: a code unit of white space gets a
  backslash before it exactly when it does not follow another one. The flag tells whether
  the previous code unit was white space.
\<close>

fun backslashBeforeRuns :: "bool \<Rightarrow> string \<Rightarrow> string" where
  "backslashBeforeRuns inRun [] = []"
| "backslashBeforeRuns inRun (c # cs) =
     (if isSpace c \<and> \<not> inRun then [CHR 0x5C, c] else [c]) @ backslashBeforeRuns (isSpace c) cs"

subsection \<open>The wrappers of a workspace\<close>

text \<open>The two searches of \<^verbatim>\<open>buildWrapper\<close>, by name.\<close>

definition gradleWrappers :: "Host \<Rightarrow> Uri list" where
  "gradleWrappers h =
     findFiles h (if win32 h then ''**/gradlew.bat'' else ''**/gradlew'') ''**/node_modules/**''"

definition mavenWrappers :: "Host \<Rightarrow> Uri list" where
  "mavenWrappers h =
     findFiles h (if win32 h then ''**/mvnw.bat'' else ''**/mvnw'') ''**/node_modules/**''"

text \<open>Whether the pick list was shown in a run.\<close>

fun isQuickPick :: "effect \<Rightarrow> bool" where
  "isQuickPick (ShowQuickPick items placeHolder) = True"
| "isQuickPick e = False"

subsection \<open>A host to run the program on\<close>

text \<open>
  A host on Linux with the given Gradle and Maven wrappers, task report, Java home,
  executables in it, and answers of the user to the pick list and to the notification.
\<close>

definition sampleHost ::
  "Uri list \<Rightarrow> Uri list \<Rightarrow> string \<Rightarrow> string option \<Rightarrow> string list \<Rightarrow>
   QuickPickItem option \<Rightarrow> string option \<Rightarrow> Host" where
  "sampleHost gradles mavens report home tools picked answered =
     \<lparr>win32 = False,
      findFiles = (\<lambda>incl excl.
         if incl = ''**/gradlew'' then gradles else if incl = ''**/mvnw'' then mavens else []),
      execFileSync = (\<lambda>file args. Inr report),
      pathDirname = (\<lambda>p. ''/proj''),
      pathJoin = (\<lambda>a b. a @ ''/'' @ b),
      pathDelimiter = '':'',
      envPATH = Some ''/usr/bin'',
      getJavaHome = home,
      findExecutable = (\<lambda>name dir. if name \<in> set tools then Some (dir @ ''/bin/'' @ name) else None),
      showQuickPick = (\<lambda>items placeHolder. picked),
      showInformationMessage = (\<lambda>message actions. answered),
      terminals = []\<rparr>"

subsection \<open>A well-formed section of the task report\<close>

text \<open>
  What a line contributes while the parser is inside the section and the line is not
  blank: nothing for a divider, the two groups of the pattern otherwise, if it matches.
\<close>

definition emittedBy :: "string \<Rightarrow> QuickPickItem list" where
  "emittedBy line =
     (if startsWith line ''---'' then []
      else (case matchTask line of
              Some (g1, g2) \<Rightarrow> [\<lparr>label = g1, detail = g2\<rparr>]
            | None \<Rightarrow> []))"

text \<open>
  The lines of a section as Gradle prints them, after trimming: a divider of hyphens, a
  task line (the task name, \<^verbatim>\<open> - \<close>, the description), or some other line that is not
  blank and has no match of the pattern. A task name is a word without white space that
  does not start like a divider; a description sits on one line and does not start with
  white space.
\<close>

datatype sectionLine = Divider string | Task string string | Other string

fun render :: "sectionLine \<Rightarrow> string" where
  "render (Divider s) = s"
| "render (Task name description) = name @ '' - '' @ description"
| "render (Other s) = s"

fun wellFormed :: "sectionLine \<Rightarrow> bool" where
  "wellFormed (Divider s) = startsWith s ''---''"
| "wellFormed (Task name description) =
     (name \<noteq> [] \<and> list_all nonSpace name \<and> \<not> startsWith name ''---'' \<and>
      list_all anyChar description \<and>
      (case description of [] \<Rightarrow> True | c # cs \<Rightarrow> nonSpace c))"
| "wellFormed (Other s) = (s \<noteq> [] \<and> \<not> startsWith s ''---'' \<and> matchTask s = None)"

fun tasksOf :: "sectionLine list \<Rightarrow> QuickPickItem list" where
  "tasksOf [] = []"
| "tasksOf (Divider s # es) = tasksOf es"
| "tasksOf (Task name description # es) = \<lparr>label = name, detail = description\<rparr> # tasksOf es"
| "tasksOf (Other s # es) = tasksOf es"

text \<open>
  The pattern in the words of the specification. It matches at the start of a text with
  a given token when the text is the token, not empty and without white space, then
  optional white space, then a hyphen; what follows the hyphen (optional white space and
  the description) always matches. The pattern occurs on a line when it matches at the
  start of some suffix of the line.
\<close>

definition patternFrom :: "string \<Rightarrow> string \<Rightarrow> bool" where
  "patternFrom s token =
     (\<exists>w r. s = token @ w @ ''-'' @ r \<and>
        token \<noteq> [] \<and> list_all nonSpace token \<and> list_all isSpace w)"

definition patternOccurs :: "string \<Rightarrow> bool" where
  "patternOccurs line = (\<exists>i token. patternFrom (drop i line) token)"

text \<open>
  The match that is reported, of all the occurrences on a line: the line is some text
  \<open>before\<close>, the token, white space, the hyphen, white space, the description and a
  rest, where
  \<^item> the pattern matches at no earlier position of the line (the leftmost occurrence);
  \<^item> no longer token matches at this position (the longest token);
  \<^item> the description starts at the first code unit behind the hyphen that is not white
    space (all the white space is skipped);
  \<^item> the description has no line terminator and the rest is empty or starts with one (the
    description runs to the end of the line or to the first line terminator).
\<close>

definition firstMatch :: "string \<Rightarrow> string \<Rightarrow> string \<Rightarrow> bool" where
  "firstMatch line token description =
     (\<exists>before w1 w2 rest.
        line = before @ token @ w1 @ ''-'' @ w2 @ description @ rest \<and>
        token \<noteq> [] \<and> list_all nonSpace token \<and>
        list_all isSpace w1 \<and> list_all isSpace w2 \<and>
        list_all anyChar description \<and>
        (\<forall>i t. i < length before \<longrightarrow> \<not> patternFrom (drop i line) t) \<and>
        (\<forall>t. patternFrom (drop (length before) line) t \<longrightarrow> length t \<le> length token) \<and>
        (case description @ rest of [] \<Rightarrow> True | c # cs \<Rightarrow> nonSpace c) \<and>
        (case rest of [] \<Rightarrow> True | c # cs \<Rightarrow> isLineTerminator c))"

subsection \<open>A report to run the parser on\<close>

fun joinLines :: "string list \<Rightarrow> string" where
  "joinLines [] = []"
| "joinLines [l] = l"
| "joinLines (l # ls) = l @ [CHR 0x0A] @ joinLines ls"

definition sampleReport :: string where
  "sampleReport = joinLines
     [''> Task :tasks'',
      [],
      ''Build tasks'',
      ''-----------'',
      ''assemble - Assembles the outputs of this project.'',
      ''build - Assembles and tests this project.'',
      [],
      ''Upload tasks'',
      ''------------'',
      [],
      ''Help tasks'',
      ''----------'',
      ''help - Displays a help message.'']"

section \<open>The matcher finds a match exactly when there is one\<close>

lemma firstSome_SomeD: "firstSome f xs = Some y \<Longrightarrow> \<exists>x\<in>set xs. f x = Some y"
  by (induction xs) (auto split: option.splits)

lemma firstSome_None_iff: "firstSome f xs = None \<longleftrightarrow> (\<forall>x\<in>set xs. f x = None)"
  by (induction xs) (auto split: option.splits)

lemma firstSome_not_None: "x \<in> set xs \<Longrightarrow> f x \<noteq> None \<Longrightarrow> firstSome f xs \<noteq> None"
  by (simp add: firstSome_None_iff) blast

lemma firstSome_first: "f x = Some y \<Longrightarrow> firstSome f (x # xs) = Some y"
  by simp

lemma rev_upt_Suc: "m \<le> n \<Longrightarrow> rev [m ..< Suc n] = n # rev [m ..< n]"
  by simp

lemma in_rev_upt: "k \<in> set (rev [m ..< Suc n]) \<longleftrightarrow> m \<le> k \<and> k \<le> n"
  by auto

lemma matchHere_Lit:
  "matchHere (Lit c # ps) s =
     (case s of [] \<Rightarrow> None
      | x # t \<Rightarrow> if x = c then map_option (\<lambda>caps. [c] # caps) (matchHere ps t) else None)"
  by simp

lemma matchHere_Star:
  "matchHere (Star P # ps) s =
     firstSome (\<lambda>k. map_option (\<lambda>caps. take k s # caps) (matchHere ps (drop k s)))
       (rev [0 ..< Suc (length (takeWhile P s))])"
  by simp

lemma matchHere_Plus:
  "matchHere (Plus P # ps) s =
     firstSome (\<lambda>k. map_option (\<lambda>caps. take k s # caps) (matchHere ps (drop k s)))
       (rev [1 ..< Suc (length (takeWhile P s))])"
  by simp

lemma take_takeWhile_all:
  "k \<le> length (takeWhile P s) \<Longrightarrow> list_all P (take k s)"
proof -
  assume k: "k \<le> length (takeWhile P s)"
  have "take k (takeWhile P s @ dropWhile P s) = take k (takeWhile P s)"
    using k by (simp del: takeWhile_dropWhile_id)
  then have "take k s = take k (takeWhile P s)" by simp
  then have "set (take k s) \<subseteq> set (takeWhile P s)" by (simp add: set_take_subset)
  then show ?thesis by (auto simp: list_all_iff dest: set_takeWhileD)
qed

lemma all_le_takeWhile:
  "list_all P c \<Longrightarrow> length c \<le> length (takeWhile P (c @ r))"
  by (simp add: list_all_iff takeWhile_append2)

lemma matchHere_sound:
  "matchHere ps s = Some caps \<Longrightarrow> list_all2 conforms ps caps \<and> (\<exists>r. s = concat caps @ r)"
proof (induction ps arbitrary: s caps)
  case Nil
  then show ?case by simp
next
  case (Cons p ps)
  show ?case
  proof (cases p)
    case (Lit c)
    with Cons.prems obtain t caps' where s: "s = c # t" and m: "matchHere ps t = Some caps'" and c: "caps = [c] # caps'"
      by (auto split: list.splits if_splits)
    from Cons.IH[OF m] show ?thesis using s c Lit by auto
  next
    case (Star P)
    with Cons.prems have "firstSome (\<lambda>k. map_option (\<lambda>caps. take k s # caps) (matchHere ps (drop k s)))
       (rev [0 ..< Suc (length (takeWhile P s))]) = Some caps"
      by (simp only: matchHere_Star)
    from firstSome_SomeD[OF this] obtain k where kin: "k \<in> set (rev [0 ..< Suc (length (takeWhile P s))])"
      and m: "map_option (\<lambda>caps. take k s # caps) (matchHere ps (drop k s)) = Some caps"
      by (rule bexE)
    from kin have k: "k \<le> length (takeWhile P s)" by (simp only: in_rev_upt)
    from m obtain caps' where m': "matchHere ps (drop k s) = Some caps'" and c: "caps = take k s # caps'"
      by auto
    from Cons.IH[OF m'] obtain r where a: "list_all2 conforms ps caps'" and r: "drop k s = concat caps' @ r" by auto
    have "s = take k s @ drop k s" by simp
    with r have e: "s = concat caps @ r" using c by (metis append.assoc concat.simps(2))
    have "list_all2 conforms (p # ps) caps"
      unfolding c Star using a take_takeWhile_all[OF k] by simp
    with e show ?thesis by blast
  next
    case (Plus P)
    with Cons.prems have "firstSome (\<lambda>k. map_option (\<lambda>caps. take k s # caps) (matchHere ps (drop k s)))
       (rev [1 ..< Suc (length (takeWhile P s))]) = Some caps"
      by (simp only: matchHere_Plus)
    from firstSome_SomeD[OF this] obtain k where kin: "k \<in> set (rev [1 ..< Suc (length (takeWhile P s))])"
      and m: "map_option (\<lambda>caps. take k s # caps) (matchHere ps (drop k s)) = Some caps"
      by (rule bexE)
    from kin have k: "k \<le> length (takeWhile P s)" and k1: "1 \<le> k" by (simp_all only: in_rev_upt)
    from m obtain caps' where m': "matchHere ps (drop k s) = Some caps'" and c: "caps = take k s # caps'"
      by auto
    from Cons.IH[OF m'] obtain r where a: "list_all2 conforms ps caps'" and r: "drop k s = concat caps' @ r" by auto
    have "s = take k s @ drop k s" by simp
    with r have e: "s = concat caps @ r" using c by (metis append.assoc concat.simps(2))
    have "take k s \<noteq> []" using k k1 by (cases s) auto
    then have "list_all2 conforms (p # ps) caps"
      unfolding c Plus using a take_takeWhile_all[OF k] by simp
    with e show ?thesis by blast
  qed
qed

lemma matchHere_complete:
  "list_all2 conforms ps caps \<Longrightarrow> matchHere ps (concat caps @ r) \<noteq> None"
proof (induction ps arbitrary: caps r)
  case Nil
  then show ?case by simp
next
  case (Cons p ps)
  from Cons.prems obtain c caps' where caps: "caps = c # caps'" and pc: "conforms p c"
    and rest: "list_all2 conforms ps caps'"
    by (auto simp: list_all2_Cons1)
  let ?s = "concat caps @ r"
  have s: "?s = c @ (concat caps' @ r)" using caps by simp
  from Cons.IH[OF rest] have ih: "matchHere ps (concat caps' @ r) \<noteq> None" .
  show ?case
  proof (cases p)
    case (Lit x)
    with pc have "c = [x]" by simp
    then show ?thesis using ih Lit s by auto
  next
    case (Star P)
    with pc have all: "list_all P c" by simp
    have le: "length c \<le> length (takeWhile P ?s)" unfolding s by (rule all_le_takeWhile[OF all])
    have ok: "map_option (\<lambda>caps. take (length c) ?s # caps) (matchHere ps (drop (length c) ?s)) \<noteq> None"
      using ih unfolding s by simp
    have mem: "length c \<in> set (rev [0 ..< Suc (length (takeWhile P ?s))])"
      using le unfolding in_rev_upt by simp
    have "firstSome (\<lambda>k. map_option (\<lambda>caps. take k ?s # caps) (matchHere ps (drop k ?s)))
            (rev [0 ..< Suc (length (takeWhile P ?s))]) \<noteq> None"
      by (rule firstSome_not_None[OF mem]) (rule ok)
    then show ?thesis unfolding Star matchHere_Star .
  next
    case (Plus P)
    with pc have all: "list_all P c" and ne: "c \<noteq> []" by simp_all
    have le: "length c \<le> length (takeWhile P ?s)" unfolding s by (rule all_le_takeWhile[OF all])
    have ok: "map_option (\<lambda>caps. take (length c) ?s # caps) (matchHere ps (drop (length c) ?s)) \<noteq> None"
      using ih unfolding s by simp
    have mem: "length c \<in> set (rev [1 ..< Suc (length (takeWhile P ?s))])"
      using le ne unfolding in_rev_upt by (cases c) simp_all
    have "firstSome (\<lambda>k. map_option (\<lambda>caps. take k ?s # caps) (matchHere ps (drop k ?s)))
            (rev [1 ..< Suc (length (takeWhile P ?s))]) \<noteq> None"
      by (rule firstSome_not_None[OF mem]) (rule ok)
    then show ?thesis unfolding Plus matchHere_Plus .
  qed
qed

lemma regexExec_sound:
  "regexExec ps s = Some caps \<Longrightarrow> list_all2 conforms ps caps \<and> (\<exists>pre r. s = pre @ concat caps @ r)"
proof -
  assume "regexExec ps s = Some caps"
  then obtain i where "matchHere ps (drop i s) = Some caps"
    unfolding regexExec_def by (auto dest!: firstSome_SomeD)
  from matchHere_sound[OF this] obtain r where a: "list_all2 conforms ps caps" and r: "drop i s = concat caps @ r"
    by auto
  have "s = take i s @ drop i s" by simp
  with r have "s = take i s @ concat caps @ r" by simp
  with a show ?thesis by blast
qed

lemma regexExec_complete:
  "list_all2 conforms ps caps \<Longrightarrow> regexExec ps (pre @ concat caps @ r) \<noteq> None"
proof -
  assume a: "list_all2 conforms ps caps"
  have ok: "matchHere ps (drop (length pre) (pre @ concat caps @ r)) \<noteq> None"
    using matchHere_complete[OF a] by simp
  have mem: "length pre \<in> set [0 ..< Suc (length (pre @ concat caps @ r))]"
    unfolding set_upt by simp
  show ?thesis unfolding regexExec_def
    by (rule firstSome_not_None[OF mem]) (rule ok)
qed

text \<open>The longest run is tried first: when the rest matches behind it, that is the match.\<close>

lemma matchHere_Star_greedy:
  assumes "matchHere ps (dropWhile P s) = Some caps"
  shows "matchHere (Star P # ps) s = Some (takeWhile P s # caps)"
proof -
  let ?n = "length (takeWhile P s)"
  have t: "take ?n s = takeWhile P s" by (simp add: takeWhile_eq_take[symmetric])
  have d: "drop ?n s = dropWhile P s" by (simp add: dropWhile_eq_drop[symmetric])
  have "firstSome (\<lambda>k. map_option (\<lambda>caps. take k s # caps) (matchHere ps (drop k s)))
          (?n # rev [0 ..< ?n]) = Some (takeWhile P s # caps)"
    by (rule firstSome_first) (simp add: t d assms)
  then show ?thesis unfolding matchHere_Star by (simp only: rev_upt_Suc[OF le0])
qed

lemma matchHere_Plus_greedy:
  assumes "takeWhile P s \<noteq> []" and "matchHere ps (dropWhile P s) = Some caps"
  shows "matchHere (Plus P # ps) s = Some (takeWhile P s # caps)"
proof -
  let ?n = "length (takeWhile P s)"
  have n: "1 \<le> ?n" using assms(1) by (cases "takeWhile P s") simp_all
  have t: "take ?n s = takeWhile P s" by (simp add: takeWhile_eq_take[symmetric])
  have d: "drop ?n s = dropWhile P s" by (simp add: dropWhile_eq_drop[symmetric])
  have "firstSome (\<lambda>k. map_option (\<lambda>caps. take k s # caps) (matchHere ps (drop k s)))
          (?n # rev [1 ..< ?n]) = Some (takeWhile P s # caps)"
    by (rule firstSome_first) (simp add: t d assms)
  then show ?thesis unfolding matchHere_Plus by (simp only: rev_upt_Suc[OF n])
qed

lemma regexExec_at_start:
  "matchHere ps s = Some caps \<Longrightarrow> regexExec ps s = Some caps"
proof -
  assume m: "matchHere ps s = Some caps"
  have "[0 ..< Suc (length s)] = 0 # [Suc 0 ..< Suc (length s)]"
    by (rule upt_conv_Cons) simp
  then show ?thesis unfolding regexExec_def using m by simp
qed

text \<open>Which attempt of a search succeeds: the first one in the order of the search.\<close>

lemma firstSome_append:
  "firstSome f (xs @ ys) = (case firstSome f xs of Some y \<Rightarrow> Some y | None \<Rightarrow> firstSome f ys)"
  by (induction xs) (simp_all split: option.splits)

lemma firstSome_upt_least:
  "firstSome f [0 ..< n] = Some y \<Longrightarrow> \<exists>i<n. f i = Some y \<and> (\<forall>j<i. f j = None)"
proof (induction n)
  case 0
  then show ?case by simp
next
  case (Suc n)
  show ?case
  proof (cases "firstSome f [0 ..< n]")
    case None
    then have all: "\<forall>j<n. f j = None" by (simp add: firstSome_None_iff)
    from Suc.prems None have "f n = Some y" by (simp add: firstSome_append split: option.splits)
    with all show ?thesis by blast
  next
    case (Some z)
    with Suc.prems have "z = y" by (simp add: firstSome_append)
    with Some Suc.IH obtain i where "i < n" "f i = Some y" "\<forall>j<i. f j = None" by blast
    then show ?thesis by (metis less_Suc_eq)
  qed
qed

lemma firstSome_down_greatest:
  "firstSome f (rev [a ..< Suc m]) = Some y \<Longrightarrow>
   \<exists>k. a \<le> k \<and> k \<le> m \<and> f k = Some y \<and> (\<forall>j. k < j \<and> j \<le> m \<longrightarrow> f j = None)"
proof (induction m)
  case 0
  then have "a = 0 \<and> f 0 = Some y" by (cases "a = 0") (simp_all split: option.splits)
  then show ?case by auto
next
  case (Suc m)
  show ?case
  proof (cases "a \<le> Suc m")
    case False
    with Suc.prems show ?thesis by simp
  next
    case True
    then have r: "rev [a ..< Suc (Suc m)] = Suc m # rev [a ..< Suc m]" by (rule rev_upt_Suc)
    show ?thesis
    proof (cases "f (Suc m)")
      case (Some z)
      with Suc.prems r have "f (Suc m) = Some y" by simp
      with True show ?thesis by (intro exI[of _ "Suc m"]) auto
    next
      case None
      with Suc.prems r have "firstSome f (rev [a ..< Suc m]) = Some y" by simp
      from Suc.IH[OF this] obtain k where k: "a \<le> k" "k \<le> m" "f k = Some y"
        "\<forall>j. k < j \<and> j \<le> m \<longrightarrow> f j = None" by blast
      have "\<forall>j. k < j \<and> j \<le> Suc m \<longrightarrow> f j = None"
      proof (intro allI impI)
        fix j assume "k < j \<and> j \<le> Suc m"
        then show "f j = None" using k(4) None by (cases "j = Suc m") auto
      qed
      with k show ?thesis by (intro exI[of _ k]) auto
    qed
  qed
qed



section \<open>Properties of command synthesis\<close>

lemma escapeSpaces_Nil_iff: "escapeSpaces s = [] \<longleftrightarrow> s = []"
  by (cases s) simp_all

lemma backslashBeforeRuns_inside:
  "backslashBeforeRuns True cs = takeWhile isSpace cs @ backslashBeforeRuns False (dropWhile isSpace cs)"
  by (induction cs) simp_all

lemma escapeSpaces_backslashBeforeRuns: "escapeSpaces s = backslashBeforeRuns False s"
proof (induction s rule: escapeSpaces.induct)
  case 1
  show ?case by simp
next
  case (2 c cs)
  show ?case
  proof (cases "isSpace c")
    case True
    with 2 show ?thesis by (simp add: backslashBeforeRuns_inside)
  next
    case False
    with 2 show ?thesis by simp
  qed
qed

lemma backslashBeforeRuns_append:
  "backslashBeforeRuns inRun (u @ w) =
     backslashBeforeRuns inRun u @ backslashBeforeRuns (if u = [] then inRun else isSpace (last u)) w"
  by (induction u arbitrary: inRun) simp_all

text \<open>
  Claim C5. For a located Gradle wrapper (its path is not empty) and any goal, the command
  line is the escaped wrapper path, a space, the goal unchanged, a space and
  \<^verbatim>\<open>--no-daemon\<close>; the escaped path is the path with a backslash before each run of
  white space, so a space in the path that does not follow white space arrives prefixed
  with a backslash.
\<close>

theorem terminalGradleCommandFor_correct:
  "fsPath wrapper \<noteq> [] \<Longrightarrow>
   terminalGradleCommandFor wrapper goal =
     Some (escapeSpaces (fsPath wrapper) @ '' '' @ goal @ '' --no-daemon'') \<and>
   escapeSpaces (fsPath wrapper) = backslashBeforeRuns False (fsPath wrapper) \<and>
   (fsPath wrapper = u @ '' '' @ v \<and> (u = [] \<or> \<not> isSpace (last u)) \<longrightarrow>
      escapeSpaces (fsPath wrapper) = escapeSpaces u @ [CHR 0x5C] @ '' '' @ backslashBeforeRuns True v)"
proof -
  assume "fsPath wrapper \<noteq> []"
  then have a: "terminalGradleCommandFor wrapper goal =
      Some (escapeSpaces (fsPath wrapper) @ '' '' @ goal @ '' --no-daemon'')"
    by (simp add: terminalGradleCommandFor_def escapeSpaces_Nil_iff)
  have b: "escapeSpaces (fsPath wrapper) = backslashBeforeRuns False (fsPath wrapper)"
    by (rule escapeSpaces_backslashBeforeRuns)
  have c: "escapeSpaces (fsPath wrapper) = escapeSpaces u @ [CHR 0x5C] @ '' '' @ backslashBeforeRuns True v"
    if "fsPath wrapper = u @ '' '' @ v" and "u = [] \<or> \<not> isSpace (last u)"
  proof -
    have "(if u = [] then False else isSpace (last u)) = False" using that(2) by auto
    then have "backslashBeforeRuns False (u @ '' '' @ v) =
        backslashBeforeRuns False u @ backslashBeforeRuns False ('' '' @ v)"
      by (simp only: backslashBeforeRuns_append)
    then show ?thesis
      unfolding that(1) escapeSpaces_backslashBeforeRuns by (simp add: isSpace_def)
  qed
  from a b c show ?thesis by blast
qed

theorem terminalGradleCommandFor_correct_witness:
  "fsPath \<lparr>fsPath = ''/home/my app/gradlew''\<rparr> \<noteq> [] \<and>
   terminalGradleCommandFor \<lparr>fsPath = ''/home/my app/gradlew''\<rparr> ''build'' =
     Some (''/home/my'' @ [CHR 0x5C] @ '' app/gradlew build --no-daemon'')"
  using terminalGradleCommandFor_correct [of "\<lparr>fsPath = ''/home/my app/gradlew''\<rparr>" "''build''"]
  by (simp add: isSpace_def)

text \<open>
  Claim C2. For a located Maven wrapper, the goal is translated by the fixed table, any
  other goal passes through unchanged, and the command line is the escaped wrapper path,
  a space and the translated goal. The caller \<^verbatim>\<open>build\<close> hands over a goal only when it
  is not empty.
\<close>

theorem terminalMavenCommandFor_table:
  assumes "fsPath wrapper \<noteq> []"
  shows "terminalMavenCommandFor wrapper ''build'' =
           Some (escapeSpaces (fsPath wrapper) @ '' compile'') \<and>
         terminalMavenCommandFor wrapper ''nativeImage'' =
           Some (escapeSpaces (fsPath wrapper) @ '' package -Dpackaging=native-image'') \<and>
         terminalMavenCommandFor wrapper ''dockerBuild'' =
           Some (escapeSpaces (fsPath wrapper) @ '' package -Dpackaging=docker'') \<and>
         terminalMavenCommandFor wrapper ''dockerBuildNative'' =
           Some (escapeSpaces (fsPath wrapper) @ '' package -Dpackaging=docker-native'') \<and>
         terminalMavenCommandFor wrapper ''dockerPush'' =
           Some (escapeSpaces (fsPath wrapper) @ '' deploy -Dpackaging=docker'') \<and>
         terminalMavenCommandFor wrapper ''dockerPushNative'' =
           Some (escapeSpaces (fsPath wrapper) @ '' deploy -Dpackaging=docker-native'') \<and>
         (goal \<noteq> [] \<longrightarrow>
          goal \<notin> set [''build'', ''nativeImage'', ''dockerBuild'', ''dockerBuildNative'',
                       ''dockerPush'', ''dockerPushNative''] \<longrightarrow>
          terminalMavenCommandFor wrapper goal = Some (escapeSpaces (fsPath wrapper) @ '' '' @ goal))"
  using assms by (simp add: terminalMavenCommandFor_def escapeSpaces_Nil_iff)

theorem terminalMavenCommandFor_table_witness:
  "terminalMavenCommandFor \<lparr>fsPath = ''/home/my app/mvnw''\<rparr> ''nativeImage'' =
     Some (''/home/my'' @ [CHR 0x5C] @ '' app/mvnw package -Dpackaging=native-image'') \<and>
   terminalMavenCommandFor \<lparr>fsPath = ''/home/my app/mvnw''\<rparr> ''verify'' =
     Some (''/home/my'' @ [CHR 0x5C] @ '' app/mvnw verify'')"
  using terminalMavenCommandFor_table [of "\<lparr>fsPath = ''/home/my app/mvnw''\<rparr>" "''verify''"]
  by (simp add: isSpace_def)

section \<open>The replace pattern and the matcher\<close>

text \<open>
  The model of the global replace agrees with the matcher on the pattern \<^verbatim>\<open>\s+\<close>: where
  the pattern matches, the match is replaced by a backslash and the match and the scan
  goes on behind it; where it does not, one code unit is copied.
\<close>


lemma whitespace_run_matched:
  "matchHere [Plus isSpace] s =
     (if takeWhile isSpace s = [] then None else Some [takeWhile isSpace s])"
proof (cases "takeWhile isSpace s = []")
  case True
  then show ?thesis by (simp only: matchHere_Plus) simp
next
  case False
  then show ?thesis using matchHere_Plus_greedy[of isSpace s "[]" "[]"] by simp
qed

lemma escapeSpaces_by_matcher:
  "escapeSpaces (c # cs) =
     (case matchHere [Plus isSpace] (c # cs) of
        Some caps \<Rightarrow> CHR 0x5C # hd caps @ escapeSpaces (drop (length (hd caps)) (c # cs))
      | None \<Rightarrow> c # escapeSpaces cs)"
proof (cases "isSpace c")
  case True
  have d: "drop (length (takeWhile isSpace cs)) cs = dropWhile isSpace cs"
    by (simp add: dropWhile_eq_drop[symmetric])
  have t: "take (length (takeWhile isSpace cs)) cs = takeWhile isSpace cs"
    by (simp add: takeWhile_eq_take[symmetric])
  have m: "min (length cs) (length (takeWhile isSpace cs)) = length (takeWhile isSpace cs)"
    by (simp add: length_takeWhile_le)
  from True show ?thesis by (simp add: whitespace_run_matched d t m)
next
  case False
  then show ?thesis by (simp add: whitespace_run_matched)
qed

section \<open>Locating the wrapper: Gradle first\<close>


lemma buildWrapper_cases:
  "buildWrapper h (Some gradle) (Some maven) =
     (case gradleWrappers h of
        w # ws \<Rightarrow> Some (gradle w)
      | [] \<Rightarrow> (case mavenWrappers h of w # ws \<Rightarrow> Some (maven w) | [] \<Rightarrow> None))"
  by (simp add: buildWrapper_def gradleWrappers_def mavenWrappers_def Let_def split: list.splits)

text \<open>
  Claim C7. With both handlers supplied, the dispatcher calls the Gradle handler on the
  first Gradle wrapper whenever one is found, whatever the Maven search gives; it calls
  the Maven handler on the first Maven wrapper only when no Gradle wrapper is found; it
  gives no result when neither is found. So with a Gradle wrapper in the workspace (and
  a Maven one or not) the catalog is the Gradle catalog and the command is the Gradle
  command.
\<close>

theorem buildWrapper_gradle_first:
  "(gradleWrappers h = w # ws \<longrightarrow>
      buildWrapper h (Some gradle) (Some maven) = Some (gradle w) \<and>
      builderInit h = getAvailableGradleGoals h w \<and>
      terminalCommandFor h goal = terminalGradleCommandFor w goal) \<and>
   (gradleWrappers h = [] \<longrightarrow> mavenWrappers h = w # ws \<longrightarrow>
      buildWrapper h (Some gradle) (Some maven) = Some (maven w)) \<and>
   (gradleWrappers h = [] \<longrightarrow> mavenWrappers h = [] \<longrightarrow>
      buildWrapper h (Some gradle) (Some maven) = None)"
  by (simp add: buildWrapper_cases builderInit_def terminalCommandFor_def)

theorem buildWrapper_gradle_first_witness:
  "gradleWrappers (sampleHost [\<lparr>fsPath = ''/proj/gradlew''\<rparr>] [\<lparr>fsPath = ''/proj/mvnw''\<rparr>] [] None [] None None)
     = [\<lparr>fsPath = ''/proj/gradlew''\<rparr>] \<and>
   mavenWrappers (sampleHost [\<lparr>fsPath = ''/proj/gradlew''\<rparr>] [\<lparr>fsPath = ''/proj/mvnw''\<rparr>] [] None [] None None)
     = [\<lparr>fsPath = ''/proj/mvnw''\<rparr>] \<and>
   terminalCommandFor (sampleHost [\<lparr>fsPath = ''/proj/gradlew''\<rparr>] [\<lparr>fsPath = ''/proj/mvnw''\<rparr>] [] None [] None None) ''build''
     = Some ''/proj/gradlew build --no-daemon''"
  using buildWrapper_gradle_first [of "sampleHost [\<lparr>fsPath = ''/proj/gradlew''\<rparr>] [\<lparr>fsPath = ''/proj/mvnw''\<rparr>] [] None [] None None"
      "\<lparr>fsPath = ''/proj/gradlew''\<rparr>" "[]" "\<lambda>w. ()" "\<lambda>w. ()" "''build''"]
  by (simp add: gradleWrappers_def mavenWrappers_def sampleHost_def terminalGradleCommandFor_def isSpace_def)

section \<open>Properties of the build action\<close>

lemma chooseGoal_empty:
  "\<not> truthy goal \<Longrightarrow> chooseGoal h [] key goal = ([], Some ''build'')"
  by (simp add: chooseGoal_def)

lemma chooseGoal_single:
  "\<not> truthy goal \<Longrightarrow> length items = 1 \<Longrightarrow> chooseGoal h items key goal = ([], Some (label (hd items)))"
  by (simp add: chooseGoal_def Let_def)

lemma chooseGoal_many:
  "\<not> truthy goal \<Longrightarrow> 1 < length items \<Longrightarrow>
   chooseGoal h items key goal =
     ([ShowQuickPick items (''Select '' @ keyName key @ '' goal to invoke'')],
      case showQuickPick h items (''Select '' @ keyName key @ '' goal to invoke'') of
        Some item \<Rightarrow> Some (label item) | None \<Rightarrow> goal)"
  by (cases items) (simp_all add: chooseGoal_def Let_def split: option.splits)

lemma chooseGoal_explicit:
  "truthy goal \<Longrightarrow> chooseGoal h items key goal = ([], goal)"
  by (simp add: chooseGoal_def)

text \<open>What \<^verbatim>\<open>build\<close> does once the goal is chosen.\<close>

lemma build_after_choice:
  "chooseGoal h (goalsAt goals (case grp of Some g \<Rightarrow> g | None \<Rightarrow> BuildKey))
      (case grp of Some g \<Rightarrow> g | None \<Rightarrow> BuildKey) goal = (shown, chosen) \<Longrightarrow>
   build h goals goal grp =
     (if truthy chosen then
        (let javaHome = getJavaHome h;
             (checked, returned) =
               (if truthy javaHome \<and> (the chosen = ''nativeImage'' \<or> the chosen = ''dockerBuildNative'')
                then checkNativeImage h (the javaHome)
                else ([], False))
         in if returned
            then \<lparr>effects = shown @ checked, terminalsAfter = terminals h, thrown = None\<rparr>
            else
              (let command = terminalCommandFor h (the chosen);
                   (sent, terms, err) = sendToTerminal h javaHome (the chosen) command
               in \<lparr>effects = shown @ checked @ sent, terminalsAfter = terms, thrown = err\<rparr>))
      else \<lparr>effects = shown, terminalsAfter = terminals h, thrown = None\<rparr>)"
  by (simp add: build_def Let_def)

text \<open>
  Claim C6. When neither search finds a wrapper, \<^verbatim>\<open>builderInit\<close> stores two empty sequences,
  no command is synthesized for any goal, and \<^verbatim>\<open>build\<close> without a goal falls back to the
  goal \<^verbatim>\<open>build\<close> and throws the error that there is no terminal command for it, without
  any effect on the user interface or the terminals.
\<close>

theorem no_wrapper_found:
  assumes "gradleWrappers h = []" and "mavenWrappers h = []"
  shows "builderInit h = Inr \<lparr>buildGoals = [], deployGoals = []\<rparr> \<and>
         terminalCommandFor h g = None \<and>
         (\<not> truthy goal \<longrightarrow>
            chooseGoal h (goalsAt \<lparr>buildGoals = [], deployGoals = []\<rparr> key) key goal = ([], Some ''build'') \<and>
            build h \<lparr>buildGoals = [], deployGoals = []\<rparr> goal grp =
              \<lparr>effects = [], terminalsAfter = terminals h,
               thrown = Some (Error ''No terminal command for build'')\<rparr>)"
proof -
  have init: "builderInit h = Inr \<lparr>buildGoals = [], deployGoals = []\<rparr>"
    using assms by (simp add: builderInit_def buildWrapper_cases)
  have cmd: "\<And>g. terminalCommandFor h g = None"
    using assms by (simp add: terminalCommandFor_def buildWrapper_cases)
  have items: "\<And>k. goalsAt \<lparr>buildGoals = [], deployGoals = []\<rparr> k = []"
    by (case_tac k) simp_all
  have run: "build h \<lparr>buildGoals = [], deployGoals = []\<rparr> goal grp =
              \<lparr>effects = [], terminalsAfter = terminals h,
               thrown = Some (Error ''No terminal command for build'')\<rparr>" if "\<not> truthy goal"
    using that
    by (simp add: build_after_choice[where shown="[]" and chosen="Some ''build''"]
        items chooseGoal_empty cmd sendToTerminal_def)
  show ?thesis using init cmd run items chooseGoal_empty by simp
qed


theorem no_wrapper_found_witness:
  "gradleWrappers (sampleHost [] [] [] None [] None None) = [] \<and>
   mavenWrappers (sampleHost [] [] [] None [] None None) = [] \<and>
   builderInit (sampleHost [] [] [] None [] None None) = Inr \<lparr>buildGoals = [], deployGoals = []\<rparr> \<and>
   terminalCommandFor (sampleHost [] [] [] None [] None None) ''build'' = None \<and>
   build (sampleHost [] [] [] None [] None None) \<lparr>buildGoals = [], deployGoals = []\<rparr> None None =
     \<lparr>effects = [], terminalsAfter = [], thrown = Some (Error ''No terminal command for build'')\<rparr>"
proof -
  let ?h = "sampleHost [] [] [] None [] None None"
  have g: "gradleWrappers ?h = []" by (simp add: gradleWrappers_def sampleHost_def)
  have m: "mavenWrappers ?h = []" by (simp add: mavenWrappers_def sampleHost_def)
  have t: "\<not> truthy None" by simp
  note r = no_wrapper_found [OF g m, of "''build''" None BuildKey None]
  have "terminals ?h = []" by (simp add: sampleHost_def)
  with r t g m show ?thesis by simp
qed

text \<open>
  Claim C9. Without an explicit goal and with the pick list dismissed, \<^verbatim>\<open>build\<close> ends
  with nothing done beyond having shown the pick list: the terminals are as before and
  no error is thrown.
\<close>

theorem picker_dismissed:
  assumes "\<not> truthy goal"
    and "key = (case grp of Some g \<Rightarrow> g | None \<Rightarrow> BuildKey)"
    and "1 < length (goalsAt goals key)"
    and "showQuickPick h (goalsAt goals key) (''Select '' @ keyName key @ '' goal to invoke'') = None"
  shows "build h goals goal grp =
           \<lparr>effects = [ShowQuickPick (goalsAt goals key) (''Select '' @ keyName key @ '' goal to invoke'')],
            terminalsAfter = terminals h,
            thrown = None\<rparr>"
proof -
  have "chooseGoal h (goalsAt goals key) key goal =
          ([ShowQuickPick (goalsAt goals key) (''Select '' @ keyName key @ '' goal to invoke'')], goal)"
    using assms(1,3,4) by (simp add: chooseGoal_many)
  then show ?thesis
    unfolding assms(2) using assms(1) by (simp add: build_after_choice)
qed

theorem picker_dismissed_witness:
  "build (sampleHost [\<lparr>fsPath = ''/proj/gradlew''\<rparr>] [] [] None [] None None)
         \<lparr>buildGoals = [\<lparr>label = ''assemble'', detail = ''Assembles the outputs''\<rparr>,
                        \<lparr>label = ''build'', detail = ''Assembles and tests''\<rparr>],
          deployGoals = []\<rparr> None None =
     \<lparr>effects = [ShowQuickPick [\<lparr>label = ''assemble'', detail = ''Assembles the outputs''\<rparr>,
                                \<lparr>label = ''build'', detail = ''Assembles and tests''\<rparr>]
                               ''Select build goal to invoke''],
      terminalsAfter = [],
      thrown = None\<rparr>"
  using picker_dismissed [of None BuildKey None
      "\<lparr>buildGoals = [\<lparr>label = ''assemble'', detail = ''Assembles the outputs''\<rparr>,
                        \<lparr>label = ''build'', detail = ''Assembles and tests''\<rparr>],
          deployGoals = []\<rparr>"
      "sampleHost [\<lparr>fsPath = ''/proj/gradlew''\<rparr>] [] [] None [] None None"]
  by (simp add: sampleHost_def)

lemma checkNativeImage_no_pick: "\<not> list_ex isQuickPick (fst (checkNativeImage h jh))"
  by (simp add: checkNativeImage_def Let_def)

lemma sendToTerminal_no_pick: "\<not> list_ex isQuickPick (fst (sendToTerminal h jh g c))"
  by (simp add: sendToTerminal_def Let_def)

lemma build_effects_after_choice:
  assumes "chooseGoal h (goalsAt goals (case grp of Some g \<Rightarrow> g | None \<Rightarrow> BuildKey))
      (case grp of Some g \<Rightarrow> g | None \<Rightarrow> BuildKey) goal = (shown, chosen)"
  shows "list_ex isQuickPick (effects (build h goals goal grp)) = list_ex isQuickPick shown"
proof -
  obtain checked returned where c: "(if truthy (getJavaHome h) \<and> (the chosen = ''nativeImage'' \<or> the chosen = ''dockerBuildNative'')
                then checkNativeImage h (the (getJavaHome h))
                else ([], False)) = (checked, returned)"
    by (cases "(if truthy (getJavaHome h) \<and> (the chosen = ''nativeImage'' \<or> the chosen = ''dockerBuildNative'')
                then checkNativeImage h (the (getJavaHome h))
                else ([], False))") 
  have nc: "\<not> list_ex isQuickPick checked"
    using c checkNativeImage_no_pick[of h "the (getJavaHome h)"] by (auto split: if_splits)
  obtain sent terms err where s: "sendToTerminal h (getJavaHome h) (the chosen) (terminalCommandFor h (the chosen)) = (sent, terms, err)"
    by (cases "sendToTerminal h (getJavaHome h) (the chosen) (terminalCommandFor h (the chosen))")
  have ns: "\<not> list_ex isQuickPick sent"
    using s sendToTerminal_no_pick[of h "getJavaHome h" "the chosen" "terminalCommandFor h (the chosen)"] by simp
  show ?thesis
    unfolding build_after_choice[OF assms] Let_def c s using nc ns by simp
qed

text \<open>
  Claim C10. Without an explicit goal, a group of exactly one goal gives that goal without
  the pick list, and the run is the run with that goal given explicitly; the pick list is
  shown exactly when the group has two goals or more.
\<close>

theorem single_goal_chosen:
  assumes "\<not> truthy goal"
    and "key = (case grp of Some g \<Rightarrow> g | None \<Rightarrow> BuildKey)"
  shows "(length (goalsAt goals key) = 1 \<longrightarrow>
            chooseGoal h (goalsAt goals key) key goal = ([], Some (label (hd (goalsAt goals key)))) \<and>
            build h goals goal grp = build h goals (Some (label (hd (goalsAt goals key)))) grp) \<and>
         (list_ex isQuickPick (effects (build h goals goal grp)) \<longleftrightarrow> 2 \<le> length (goalsAt goals key))"
proof -
  let ?items = "goalsAt goals key"
  have one: "chooseGoal h ?items key goal = ([], Some (label (hd ?items))) \<and>
             build h goals goal grp = build h goals (Some (label (hd ?items))) grp"
    if len: "length ?items = 1"
  proof -
    have a: "chooseGoal h ?items key goal = ([], Some (label (hd ?items)))"
      using assms(1) len by (rule chooseGoal_single)
    have b: "chooseGoal h ?items key (Some (label (hd ?items))) = ([], Some (label (hd ?items)))"
    proof (cases "truthy (Some (label (hd ?items)))")
      case True
      then show ?thesis by (rule chooseGoal_explicit)
    next
      case False
      then show ?thesis using len by (rule chooseGoal_single)
    qed
    have "build h goals goal grp = build h goals (Some (label (hd ?items))) grp"
      using a b unfolding assms(2) by (simp add: build_after_choice)
    with a show ?thesis by simp
  qed
  have shown: "list_ex isQuickPick (fst (chooseGoal h ?items key goal)) \<longleftrightarrow> 2 \<le> length ?items"
  proof (cases "length ?items = 0")
    case True
    then show ?thesis using assms(1) by (simp add: chooseGoal_empty)
  next
    case False
    show ?thesis
    proof (cases "length ?items = 1")
      case True
      then show ?thesis using assms(1) by (simp add: chooseGoal_single)
    next
      case F1: False
      with False have "1 < length ?items" by arith
      then show ?thesis using assms(1) by (simp add: chooseGoal_many)
    qed
  qed
  have "list_ex isQuickPick (effects (build h goals goal grp)) =
        list_ex isQuickPick (fst (chooseGoal h ?items key goal))"
    unfolding assms(2)
    by (rule build_effects_after_choice) (rule prod.collapse[symmetric])
  with shown one show ?thesis by simp
qed

theorem single_goal_chosen_witness:
  "build (sampleHost [\<lparr>fsPath = ''/proj/gradlew''\<rparr>] [] [] None [] None None)
         \<lparr>buildGoals = [\<lparr>label = ''assemble'', detail = ''Assembles the outputs''\<rparr>], deployGoals = []\<rparr> None None =
   build (sampleHost [\<lparr>fsPath = ''/proj/gradlew''\<rparr>] [] [] None [] None None)
         \<lparr>buildGoals = [\<lparr>label = ''assemble'', detail = ''Assembles the outputs''\<rparr>], deployGoals = []\<rparr> (Some ''assemble'') None \<and>
   \<not> list_ex isQuickPick (effects (build (sampleHost [\<lparr>fsPath = ''/proj/gradlew''\<rparr>] [] [] None [] None None)
         \<lparr>buildGoals = [\<lparr>label = ''assemble'', detail = ''Assembles the outputs''\<rparr>], deployGoals = []\<rparr> None None))"
proof -
  let ?h = "sampleHost [\<lparr>fsPath = ''/proj/gradlew''\<rparr>] [] [] None [] None None"
  let ?g = "\<lparr>buildGoals = [\<lparr>label = ''assemble'', detail = ''Assembles the outputs''\<rparr>], deployGoals = []\<rparr>"
  have h1: "\<not> truthy None" by simp
  have h2: "BuildKey = (case None of Some g \<Rightarrow> g | None \<Rightarrow> BuildKey)" by simp
  note t = single_goal_chosen [OF h1 h2, of ?g ?h]
  have len: "length (goalsAt ?g BuildKey) = 1" by simp
  from t len have a: "build ?h ?g None None = build ?h ?g (Some (label (hd (goalsAt ?g BuildKey)))) None"
    by blast
  from t have "list_ex isQuickPick (effects (build ?h ?g None None)) \<longleftrightarrow>
      2 \<le> length (goalsAt ?g BuildKey)"
    by (rule conjunct2)
  then have b: "\<not> list_ex isQuickPick (effects (build ?h ?g None None))"
    by simp
  from a have c: "build ?h ?g None None = build ?h ?g (Some ''assemble'') None" by simp
  from c b show ?thesis by (rule conjI)
qed

text \<open>
  Claim C8, as the code has it. The chosen goal is \<^verbatim>\<open>nativeImage\<close> or \<^verbatim>\<open>dockerBuildNative\<close>,
  a Java home is configured and holds no \<^verbatim>\<open>native-image\<close>. If \<^verbatim>\<open>gu\<close> is found the user is
  offered the installation: when the user takes it, the installer command is run and the
  request ends there, with no terminal touched and no error; when the user does not take
  it, the run goes on to the command and the terminal. If \<^verbatim>\<open>gu\<close> is not found a warning
  is shown and the run goes on as well. An error is thrown only when no command can be
  synthesized for the goal.
\<close>

theorem native_image_missing:
  assumes "key = (case grp of Some k \<Rightarrow> k | None \<Rightarrow> BuildKey)"
    and "chooseGoal h (goalsAt goals key) key goal = (shown, Some g)"
    and "g = ''nativeImage'' \<or> g = ''dockerBuildNative''"
    and "getJavaHome h = Some jh" and "jh \<noteq> []"
    and "\<not> truthy (findExecutable h NATIVE_IMAGE jh)"
  shows "(truthy (findExecutable h ''gu'' jh) \<and>
          showInformationMessage h ''native-image is not installed in your GraalVM'' [''Install native-image'']
            = Some ''Install native-image'' \<longrightarrow>
            build h goals goal grp =
              \<lparr>effects = shown @
                 [ShowInformationMessage ''native-image is not installed in your GraalVM'' [''Install native-image''],
                  ExecuteCommand ''extension.graalvm.installGraalVMComponent'' [''native-image'', jh]],
               terminalsAfter = terminals h,
               thrown = None\<rparr>) \<and>
         (truthy (findExecutable h ''gu'' jh) \<and>
          showInformationMessage h ''native-image is not installed in your GraalVM'' [''Install native-image'']
            \<noteq> Some ''Install native-image'' \<longrightarrow>
            build h goals goal grp =
              (case sendToTerminal h (Some jh) g (terminalCommandFor h g) of
                 (sent, terms, err) \<Rightarrow>
                   \<lparr>effects = shown @
                      [ShowInformationMessage ''native-image is not installed in your GraalVM'' [''Install native-image'']] @ sent,
                    terminalsAfter = terms,
                    thrown = err\<rparr>)) \<and>
         (\<not> truthy (findExecutable h ''gu'' jh) \<longrightarrow>
            build h goals goal grp =
              (case sendToTerminal h (Some jh) g (terminalCommandFor h g) of
                 (sent, terms, err) \<Rightarrow>
                   \<lparr>effects = shown @ [ShowWarningMessage (''native-image is missing in '' @ jh)] @ sent,
                    terminalsAfter = terms,
                    thrown = err\<rparr>)) \<and>
         (thrown (build h goals goal grp) \<noteq> None \<longrightarrow> \<not> truthy (terminalCommandFor h g))"
proof -
  have tg: "g \<noteq> []" using assms(3) by auto
  obtain checked returned where cn: "checkNativeImage h jh = (checked, returned)"
    by (cases "checkNativeImage h jh")
  obtain sent terms err where st: "sendToTerminal h (Some jh) g (terminalCommandFor h g) = (sent, terms, err)"
    by (cases "sendToTerminal h (Some jh) g (terminalCommandFor h g)")
  have b: "build h goals goal grp =
     (if returned then \<lparr>effects = shown @ checked, terminalsAfter = terminals h, thrown = None\<rparr>
      else \<lparr>effects = shown @ checked @ sent, terminalsAfter = terms, thrown = err\<rparr>)"
    using assms(2,3,5) tg unfolding assms(1)
    by (simp add: build_after_choice assms(4) cn st Let_def)
  have accept: "(checked, returned) =
       ([ShowInformationMessage ''native-image is not installed in your GraalVM'' [''Install native-image''],
         ExecuteCommand ''extension.graalvm.installGraalVMComponent'' [''native-image'', jh]], True)"
    if "truthy (findExecutable h ''gu'' jh)"
      and "showInformationMessage h ''native-image is not installed in your GraalVM'' [''Install native-image'']
            = Some ''Install native-image''"
    using that assms(6) unfolding cn[symmetric] by (simp add: checkNativeImage_def NATIVE_IMAGE_def Let_def)
  have decline: "(checked, returned) =
       ([ShowInformationMessage ''native-image is not installed in your GraalVM'' [''Install native-image'']], False)"
    if "truthy (findExecutable h ''gu'' jh)"
      and "showInformationMessage h ''native-image is not installed in your GraalVM'' [''Install native-image'']
            \<noteq> Some ''Install native-image''"
    using that assms(6) unfolding cn[symmetric] by (simp add: checkNativeImage_def NATIVE_IMAGE_def Let_def)
  have warn: "(checked, returned) = ([ShowWarningMessage (''native-image is missing in '' @ jh)], False)"
    if "\<not> truthy (findExecutable h ''gu'' jh)"
    using that assms(6) unfolding cn[symmetric] by (simp add: checkNativeImage_def NATIVE_IMAGE_def Let_def)
  have err: "\<not> truthy (terminalCommandFor h g)" if "thrown (build h goals goal grp) \<noteq> None"
    using that st unfolding b
    by (auto simp: sendToTerminal_def Let_def split: if_splits)
  show ?thesis
    using accept decline warn err unfolding b st by (auto simp: cn)
qed

theorem native_image_missing_witness:
  "build (sampleHost [\<lparr>fsPath = ''/proj/gradlew''\<rparr>] [] [] (Some ''/graalvm'') [''gu''] None (Some ''Install native-image''))
         \<lparr>buildGoals = [], deployGoals = []\<rparr> (Some ''nativeImage'') None =
     \<lparr>effects =
        [ShowInformationMessage ''native-image is not installed in your GraalVM'' [''Install native-image''],
         ExecuteCommand ''extension.graalvm.installGraalVMComponent'' [''native-image'', ''/graalvm'']],
      terminalsAfter = [],
      thrown = None\<rparr>"
proof -
  let ?h = "sampleHost [\<lparr>fsPath = ''/proj/gradlew''\<rparr>] [] [] (Some ''/graalvm'') [''gu''] None (Some ''Install native-image'')"
  let ?c = "\<lparr>buildGoals = [], deployGoals = []\<rparr>"
  have a1: "BuildKey = (case None of Some k \<Rightarrow> k | None \<Rightarrow> BuildKey)" by simp
  have a2: "chooseGoal ?h (goalsAt ?c BuildKey) BuildKey (Some ''nativeImage'') = ([], Some ''nativeImage'')"
    by (simp add: chooseGoal_def)
  have a3: "''nativeImage'' = ''nativeImage'' \<or> ''nativeImage'' = ''dockerBuildNative''" by simp
  have a4: "getJavaHome ?h = Some ''/graalvm''" by (simp add: sampleHost_def)
  have a5: "''/graalvm'' \<noteq> []" by simp
  have a6: "\<not> truthy (findExecutable ?h NATIVE_IMAGE ''/graalvm'')"
    by (simp add: sampleHost_def NATIVE_IMAGE_def)
  note r = native_image_missing [OF a1 a2 a3 a4 a5 a6]
  have "truthy (findExecutable ?h ''gu'' ''/graalvm'')" by (simp add: sampleHost_def)
  moreover have "showInformationMessage ?h ''native-image is not installed in your GraalVM'' [''Install native-image'']
            = Some ''Install native-image''" by (simp add: sampleHost_def)
  moreover have "terminals ?h = []" by (simp add: sampleHost_def)
  ultimately show ?thesis using r by simp
qed

text \<open>
  The request is not always aborted when \<^verbatim>\<open>gu\<close> is found: with the notification
  dismissed, the command is synthesized and sent to a fresh terminal.
\<close>

theorem native_image_missing_counterexample:
  "getJavaHome (sampleHost [\<lparr>fsPath = ''/proj/gradlew''\<rparr>] [] [] (Some ''/graalvm'') [''gu''] None None) = Some ''/graalvm'' \<and>
   findExecutable (sampleHost [\<lparr>fsPath = ''/proj/gradlew''\<rparr>] [] [] (Some ''/graalvm'') [''gu''] None None) NATIVE_IMAGE ''/graalvm'' = None \<and>
   findExecutable (sampleHost [\<lparr>fsPath = ''/proj/gradlew''\<rparr>] [] [] (Some ''/graalvm'') [''gu''] None None) ''gu'' ''/graalvm'' = Some ''/graalvm/bin/gu'' \<and>
   build (sampleHost [\<lparr>fsPath = ''/proj/gradlew''\<rparr>] [] [] (Some ''/graalvm'') [''gu''] None None)
         \<lparr>buildGoals = [], deployGoals = []\<rparr> (Some ''nativeImage'') None =
     \<lparr>effects =
        [ShowInformationMessage ''native-image is not installed in your GraalVM'' [''Install native-image''],
         CreateTerminal ''Micronaut'' [(''JAVA_HOME'', ''/graalvm''), (''PATH'', ''/graalvm/bin:/usr/bin'')],
         TerminalShow,
         TerminalSendText ''/proj/gradlew nativeImage --no-daemon''],
      terminalsAfter = [''Micronaut''],
      thrown = None\<rparr>"
  by (simp add: sampleHost_def build_def chooseGoal_def checkNativeImage_def sendToTerminal_def
      terminalCommandFor_def buildWrapper_def terminalGradleCommandFor_def NATIVE_IMAGE_def MICRONAUT_def
      isSpace_def Let_def)

section \<open>Parsing the task report\<close>


lemma run_then_stop:
  assumes "list_all P n" and "r = [] \<or> \<not> P (hd r)"
  shows "takeWhile P (n @ r) = n" and "dropWhile P (n @ r) = r"
proof -
  from assms(2) have tr: "takeWhile P r = []" by (cases r) auto
  from assms(2) have dr: "dropWhile P r = r" by (cases r) auto
  show "takeWhile P (n @ r) = n" using assms(1) tr by (simp add: list_all_iff)
  show "dropWhile P (n @ r) = r" using assms(1) dr by (simp add: list_all_iff)
qed

lemma hyphen_not_space: "\<not> isSpace CHR ''-''"
  by (simp add: isSpace_def)

lemma matchTask_task_line:
  assumes "wellFormed (Task n d)"
  shows "matchTask (n @ '' - '' @ d) = Some (n, d)"
proof -
  from assms have n: "n \<noteq> []" "list_all nonSpace n" and d: "list_all anyChar d"
    and d0: "d = [] \<or> \<not> isSpace (hd d)"
    by (auto simp: nonSpace_def split: list.splits)
  have space: "isSpace CHR '' ''" by (simp add: isSpace_def)
  have m5: "matchHere [Star anyChar] d = Some [d]"
    using matchHere_Star_greedy[of "[]" anyChar d "[]"] run_then_stop[OF d, of "[]"] by simp
  have m4: "matchHere [Star isSpace, Star anyChar] ('' '' @ d) = Some ['' '', d]"
  proof -
    have a: "list_all isSpace '' ''" using space by simp
    from run_then_stop[OF a d0] m5
    show ?thesis using matchHere_Star_greedy[of "[Star anyChar]" isSpace "'' '' @ d" "[d]"] by simp
  qed
  have m3: "matchHere [Lit CHR ''-'', Star isSpace, Star anyChar] (''- '' @ d) = Some [''-'', '' '', d]"
    using m4 by (simp add: matchHere_Lit)
  have m2: "matchHere [Star isSpace, Lit CHR ''-'', Star isSpace, Star anyChar] ('' - '' @ d)
              = Some ['' '', ''-'', '' '', d]"
  proof -
    have a: "list_all isSpace '' ''" using space by simp
    have b: "''- '' @ d = [] \<or> \<not> isSpace (hd (''- '' @ d))" using hyphen_not_space by simp
    from run_then_stop[OF a b] m3
    show ?thesis
      using matchHere_Star_greedy[of "[Lit CHR ''-'', Star isSpace, Star anyChar]" isSpace "'' - '' @ d" "[''-'', '' '', d]"]
      by simp
  qed
  have m1: "matchHere taskPattern (n @ '' - '' @ d) = Some [n, '' '', ''-'', '' '', d]"
  proof -
    have b: "'' - '' @ d = [] \<or> \<not> nonSpace (hd ('' - '' @ d))" using space by (simp add: nonSpace_def)
    from run_then_stop[OF n(2) b] m2 n(1)
    show ?thesis unfolding taskPattern_def
      using matchHere_Plus_greedy[of nonSpace "n @ '' - '' @ d" "[Star isSpace, Lit CHR ''-'', Star isSpace, Star anyChar]" "['' '', ''-'', '' '', d]"]
      by simp
  qed
  show ?thesis unfolding matchTask_def using regexExec_at_start[OF m1] by simp
qed


lemma matchTask_blank: "matchTask [] = None"
  by (simp add: matchTask_def regexExec_def taskPattern_def)

lemma startsWith_blank: "\<not> startsWith [] ''---''"
  by (simp add: startsWith_def)

lemma lineStep_blank: "lineStep category (True, goals) [] = (False, goals)"
  by (simp add: lineStep_def matchTask_blank startsWith_blank)

lemma lineStep_inside:
  "line \<noteq> [] \<Longrightarrow> lineStep category (True, goals) line = (True, goals @ emittedBy line)"
  by (simp add: lineStep_def emittedBy_def split: option.splits)

lemma lineStep_outside:
  "lineStep category (False, goals) line = (line = category, goals)"
  by (simp add: lineStep_def)

lemma foldl_inside:
  "\<forall>l\<in>set ls. l \<noteq> [] \<Longrightarrow>
   foldl (lineStep category) (True, goals) ls = (True, goals @ concat (map emittedBy ls))"
  by (induction ls arbitrary: goals) (simp_all add: lineStep_inside)

lemma foldl_outside:
  "\<forall>l\<in>set ls. l \<noteq> category \<Longrightarrow>
   foldl (lineStep category) (False, goals) ls = (False, goals)"
  by (induction ls) (simp_all add: lineStep_outside)

lemma parse_section:
  assumes lines: "splitOn CHR 0x0A out = pre @ header # sect @ blank # post"
    and header: "trim header = category"
    and blank: "trim blank = []"
    and others: "\<forall>l\<in>set (pre @ post). trim l \<noteq> category"
    and sect: "\<forall>l\<in>set sect. trim l \<noteq> []"
  shows "parseAvailableGradleGoals out category = concat (map emittedBy (map trim sect))"
proof -
  have pre: "\<forall>l\<in>set (map trim pre). l \<noteq> category" using others by simp
  have post: "\<forall>l\<in>set (map trim post). l \<noteq> category" using others by simp
  have ins: "\<forall>l\<in>set (map trim sect). l \<noteq> []" using sect by simp
  have "foldl (lineStep category) (False, []) (map trim (pre @ header # sect @ blank # post)) =
        (False, concat (map emittedBy (map trim sect)))"
    by (simp add: foldl_outside[OF pre] foldl_outside[OF post] foldl_inside[OF ins]
        lineStep_outside lineStep_blank header blank)
  then show ?thesis by (simp add: parseAvailableGradleGoals_def lines)
qed

lemma task_line_no_divider:
  assumes "n \<noteq> []" and "\<not> startsWith n ''---''"
  shows "\<not> startsWith (n @ '' - '' @ d) ''---''"
proof
  assume "startsWith (n @ '' - '' @ d) ''---''"
  then have t: "take (length ''---'') (n @ '' - '' @ d) = ''---''"
    unfolding startsWith_def .
  from assms(2) have u: "take (length ''---'') n \<noteq> ''---''"
    unfolding startsWith_def .
  show False
  proof (cases "length ''---'' \<le> length n")
    case True
    then have "take (length ''---'') (n @ '' - '' @ d) = take (length ''---'') n" by simp
    with t u show False by simp
  next
    case False
    then have "length n < 3" by simp
    moreover have "length n \<noteq> 0" using assms(1) by simp
    ultimately have "length n = 1 \<or> length n = 2" by arith
    then show False
    proof
      assume "length n = 1"
      then obtain a where "n = [a]" by (cases n) auto
      with t show False by simp
    next
      assume "length n = 2"
      then obtain a b where "n = [a, b]" by (cases n; cases "tl n") auto
      with t show False by simp
    qed
  qed
qed

lemma emittedBy_render:
  "wellFormed e \<Longrightarrow> render e \<noteq> [] \<and> emittedBy (render e) = tasksOf [e]"
proof (cases e)
  case (Divider s)
  assume "wellFormed e"
  with Divider show ?thesis by (auto simp: emittedBy_def startsWith_def)
next
  case (Task n d)
  assume w: "wellFormed e"
  with Task have n: "n \<noteq> []" "\<not> startsWith n ''---''" by simp_all
  from w Task have "matchTask (n @ '' - '' @ d) = Some (n, d)" by (simp only: matchTask_task_line)
  with task_line_no_divider[OF n, of d] Task n show ?thesis by (simp add: emittedBy_def)
next
  case (Other s)
  assume "wellFormed e"
  with Other show ?thesis by (simp add: emittedBy_def)
qed

lemma emittedBy_section:
  "list_all wellFormed es \<Longrightarrow>
   (\<forall>l\<in>set (map render es). l \<noteq> []) \<and> concat (map emittedBy (map render es)) = tasksOf es"
proof (induction es)
  case Nil
  show ?case by simp
next
  case (Cons e es)
  then have e: "render e \<noteq> [] \<and> emittedBy (render e) = tasksOf [e]" and
    es: "(\<forall>l\<in>set (map render es). l \<noteq> []) \<and> concat (map emittedBy (map render es)) = tasksOf es"
    by (simp_all add: emittedBy_render)
  have "tasksOf (e # es) = tasksOf [e] @ tasksOf es" by (cases e) simp_all
  with e es show ?case by simp
qed

lemma parse_section_entries:
  assumes "splitOn CHR 0x0A out = pre @ header # sect @ blank # post"
    and "trim header = category"
    and "trim blank = []"
    and "\<forall>l\<in>set (pre @ post). trim l \<noteq> category"
    and "map trim sect = map render entries"
    and "list_all wellFormed entries"
  shows "parseAvailableGradleGoals out category = tasksOf entries"
proof -
  from emittedBy_section[OF assms(6)]
  have ne: "\<forall>l\<in>set (map trim sect). l \<noteq> []"
    and em: "concat (map emittedBy (map trim sect)) = tasksOf entries"
    unfolding assms(5) by simp_all
  from ne have "\<forall>l\<in>set sect. trim l \<noteq> []" by simp
  from parse_section[OF assms(1-4) this] em show ?thesis by simp
qed

text \<open>
  Claim C1. Let the lines of the report be some lines, then the header of the section,
  then the lines of a well-formed section, then a blank line, then the rest, with no
  other line equal to the header. Then the parser returns exactly the name and the
  description of each task line of the section, in their order; nothing comes from the
  lines before the header or after the blank line. A section without task lines gives
  the empty sequence.
\<close>

theorem parse_well_formed_section:
  assumes "splitOn CHR 0x0A out = pre @ header # sect @ blank # post"
    and "trim header = category"
    and "trim blank = []"
    and "\<forall>l\<in>set (pre @ post). trim l \<noteq> category"
    and "map trim sect = map render entries"
    and "list_all wellFormed entries"
  shows "parseAvailableGradleGoals out category = tasksOf entries"
  using assms by (rule parse_section_entries)

theorem parse_well_formed_section_witness:
  "parseAvailableGradleGoals sampleReport ''Build tasks'' =
     [\<lparr>label = ''assemble'', detail = ''Assembles the outputs of this project.''\<rparr>,
      \<lparr>label = ''build'', detail = ''Assembles and tests this project.''\<rparr>] \<and>
   parseAvailableGradleGoals sampleReport ''Upload tasks'' = []"
proof -
  have lines: "splitOn CHR 0x0A sampleReport =
      [''> Task :tasks'', []] @ ''Build tasks'' #
      [''-----------'', ''assemble - Assembles the outputs of this project.'',
       ''build - Assembles and tests this project.''] @ [] #
      [''Upload tasks'', ''------------'', [], ''Help tasks'', ''----------'',
       ''help - Displays a help message.'']"
    by (simp add: sampleReport_def)
  have lines2: "splitOn CHR 0x0A sampleReport =
      [''> Task :tasks'', [], ''Build tasks'',
       ''-----------'', ''assemble - Assembles the outputs of this project.'',
       ''build - Assembles and tests this project.'', []] @ ''Upload tasks'' #
      [''------------''] @ [] # [''Help tasks'', ''----------'',
       ''help - Displays a help message.'']"
    by (simp add: sampleReport_def)
  have a: "parseAvailableGradleGoals sampleReport ''Build tasks'' =
     tasksOf [Divider ''-----------'',
              Task ''assemble'' ''Assembles the outputs of this project.'',
              Task ''build'' ''Assembles and tests this project.'']"
    by (rule parse_well_formed_section [OF lines])
       (simp_all add: trim_def isSpace_def startsWith_def nonSpace_def anyChar_def isLineTerminator_def)
  have b: "parseAvailableGradleGoals sampleReport ''Upload tasks'' = tasksOf [Divider ''------------'']"
    by (rule parse_well_formed_section [OF lines2])
       (simp_all add: trim_def isSpace_def startsWith_def nonSpace_def anyChar_def isLineTerminator_def)
  from a b show ?thesis by simp
qed


lemma matchHere_ConsD:
  assumes "matchHere (p # ps) s = Some caps"
  shows "\<exists>c s' caps'. s = c @ s' \<and> caps = c # caps' \<and> matchHere ps s' = Some caps'"
proof (cases p)
  case (Lit x)
  with assms obtain t caps' where "s = x # t" "matchHere ps t = Some caps'" "caps = [x] # caps'"
    by (auto split: list.splits if_splits)
  then have "s = [x] @ t \<and> caps = [x] # caps' \<and> matchHere ps t = Some caps'" by simp
  then show ?thesis by blast
next
  case (Star P)
  with assms have "firstSome (\<lambda>k. map_option (\<lambda>caps. take k s # caps) (matchHere ps (drop k s)))
       (rev [0 ..< Suc (length (takeWhile P s))]) = Some caps"
    by (simp only: matchHere_Star)
  from firstSome_SomeD[OF this] obtain k where
    m: "map_option (\<lambda>caps. take k s # caps) (matchHere ps (drop k s)) = Some caps"
    by (rule bexE)
  from m obtain caps' where "matchHere ps (drop k s) = Some caps'" "caps = take k s # caps'"
    by auto
  then have "s = take k s @ drop k s \<and> caps = take k s # caps' \<and> matchHere ps (drop k s) = Some caps'"
    by simp
  then show ?thesis by blast
next
  case (Plus P)
  with assms have "firstSome (\<lambda>k. map_option (\<lambda>caps. take k s # caps) (matchHere ps (drop k s)))
       (rev [1 ..< Suc (length (takeWhile P s))]) = Some caps"
    by (simp only: matchHere_Plus)
  from firstSome_SomeD[OF this] obtain k where
    m: "map_option (\<lambda>caps. take k s # caps) (matchHere ps (drop k s)) = Some caps"
    by (rule bexE)
  from m obtain caps' where "matchHere ps (drop k s) = Some caps'" "caps = take k s # caps'"
    by auto
  then have "s = take k s @ drop k s \<and> caps = take k s # caps' \<and> matchHere ps (drop k s) = Some caps'"
    by simp
  then show ?thesis by blast
qed

lemma conforms_taskPattern:
  "list_all2 conforms taskPattern caps \<longleftrightarrow>
     (\<exists>g1 w1 w2 g2. caps = [g1, w1, ''-'', w2, g2] \<and> g1 \<noteq> [] \<and> list_all nonSpace g1 \<and>
        list_all isSpace w1 \<and> list_all isSpace w2 \<and> list_all anyChar g2)"
  by (auto simp: taskPattern_def list_all2_Cons1)

lemma case_hd_conv:
  "(case xs of [] \<Rightarrow> True | c # cs \<Rightarrow> Q c) \<longleftrightarrow> (xs = [] \<or> Q (hd xs))"
  by (cases xs) simp_all

lemma patternFrom_rest_matches:
  assumes "patternFrom s t"
  shows "matchHere [Star isSpace, Lit CHR ''-'', Star isSpace, Star anyChar] (drop (length t) s) \<noteq> None"
proof -
  from assms obtain w r where s: "s = t @ w @ ''-'' @ r" and w: "list_all isSpace w"
    unfolding patternFrom_def by blast
  have "list_all2 conforms [Star isSpace, Lit CHR ''-'', Star isSpace, Star anyChar] [w, ''-'', [], []]"
    using w by simp
  from matchHere_complete[OF this, of r] show ?thesis unfolding s by simp
qed

lemma patternFrom_matches:
  assumes "patternFrom s t"
  shows "matchHere taskPattern s \<noteq> None"
proof -
  from assms obtain w r where s: "s = t @ w @ ''-'' @ r" and t: "t \<noteq> []" "list_all nonSpace t"
    and w: "list_all isSpace w"
    unfolding patternFrom_def by blast
  have "list_all2 conforms taskPattern [t, w, ''-'', [], []]"
    unfolding conforms_taskPattern using t w by simp
  from matchHere_complete[OF this, of r] show ?thesis unfolding s by simp
qed

lemma patternFrom_length:
  assumes "patternFrom s t"
  shows "1 \<le> length t \<and> length t \<le> length (takeWhile nonSpace s)"
proof -
  from assms obtain w r where s: "s = t @ w @ ''-'' @ r" and t: "t \<noteq> []" "list_all nonSpace t"
    unfolding patternFrom_def by blast
  from t(1) have "1 \<le> length t" by (cases t) simp_all
  moreover have "length t \<le> length (takeWhile nonSpace s)"
    unfolding s by (rule all_le_takeWhile[OF t(2)])
  ultimately show ?thesis by simp
qed

lemma two_stars_greedy:
  "matchHere [Star P, Star Q] s = Some [takeWhile P s, takeWhile Q (dropWhile P s)]"
proof -
  have "matchHere [Star Q] (dropWhile P s) = Some [takeWhile Q (dropWhile P s)]"
    by (rule matchHere_Star_greedy) simp
  then show ?thesis by (rule matchHere_Star_greedy)
qed

lemma matchHere_taskPattern_shape:
  assumes "matchHere taskPattern s = Some caps"
  shows "\<exists>token w1 w2 d rest.
           caps = [token, w1, ''-'', w2, d] \<and>
           s = token @ w1 @ ''-'' @ w2 @ d @ rest \<and>
           token \<noteq> [] \<and> list_all nonSpace token \<and> list_all isSpace w1 \<and>
           list_all isSpace w2 \<and> list_all anyChar d \<and>
           (\<forall>t. patternFrom s t \<longrightarrow> length t \<le> length token) \<and>
           (case d @ rest of [] \<Rightarrow> True | c # cs \<Rightarrow> nonSpace c) \<and>
           (case rest of [] \<Rightarrow> True | c # cs \<Rightarrow> isLineTerminator c)"
proof -
  let ?ps = "[Star isSpace, Lit CHR ''-'', Star isSpace, Star anyChar]"
  let ?m = "length (takeWhile nonSpace s)"
  let ?g = "\<lambda>k. map_option (\<lambda>caps. take k s # caps) (matchHere ?ps (drop k s))"
  from assms have "firstSome ?g (rev [1 ..< Suc ?m]) = Some caps"
    unfolding taskPattern_def by (simp only: matchHere_Plus)
  from firstSome_down_greatest[OF this] obtain k where
    kk: "1 \<le> k \<and> k \<le> ?m \<and> ?g k = Some caps \<and> (\<forall>j. k < j \<and> j \<le> ?m \<longrightarrow> ?g j = None)"
    by (rule exE)
  from kk have k: "1 \<le> k" "k \<le> ?m" and gk: "?g k = Some caps" and
    above: "\<forall>j. k < j \<and> j \<le> ?m \<longrightarrow> ?g j = None"
    by simp_all
  from gk obtain caps1 where m1: "matchHere ?ps (drop k s) = Some caps1" and c0: "caps = take k s # caps1"
    by auto
  from matchHere_ConsD[OF m1] obtain w1 s2 caps2 where
    d1: "drop k s = w1 @ s2" and c1: "caps1 = w1 # caps2" and
    m2: "matchHere [Lit CHR ''-'', Star isSpace, Star anyChar] s2 = Some caps2"
    by blast
  from m2 obtain s3 caps3 where d2: "s2 = CHR ''-'' # s3" and c2: "caps2 = ''-'' # caps3"
    and m3: "matchHere [Star isSpace, Star anyChar] s3 = Some caps3"
    by (auto simp: matchHere_Lit split: list.splits if_splits)
  from m3 have c3: "caps3 = [takeWhile isSpace s3, takeWhile anyChar (dropWhile isSpace s3)]"
    by (simp only: two_stars_greedy option.inject)
  let ?token = "take k s"
  let ?w2 = "takeWhile isSpace s3"
  let ?d = "takeWhile anyChar (dropWhile isSpace s3)"
  let ?rest = "dropWhile anyChar (dropWhile isSpace s3)"
  have caps: "caps = [?token, w1, ''-'', ?w2, ?d]" using c0 c1 c2 c3 by simp
  have "s = take k s @ drop k s" by simp
  also have "drop k s = w1 @ ''-'' @ s3" using d1 d2 by simp
  also have "s3 = ?w2 @ ?d @ ?rest" by simp
  finally have s: "s = ?token @ w1 @ ''-'' @ ?w2 @ ?d @ ?rest" .
  from matchHere_sound[OF assms] have "list_all2 conforms taskPattern caps" by simp
  then have conf: "?token \<noteq> []" "list_all nonSpace ?token" "list_all isSpace w1"
    "list_all isSpace ?w2" "list_all anyChar ?d"
    unfolding conforms_taskPattern caps by simp_all
  have klen: "length ?token = k"
    using k(2) length_takeWhile_le[of nonSpace s] by simp
  have longest: "\<forall>t. patternFrom s t \<longrightarrow> length t \<le> length ?token"
  proof (intro allI impI)
    fix t assume p: "patternFrom s t"
    from patternFrom_length[OF p] have le: "length t \<le> ?m" by simp
    from patternFrom_rest_matches[OF p] have ne: "?g (length t) \<noteq> None" by simp
    have "\<not> k < length t"
    proof
      assume "k < length t"
      with le have "k < length t \<and> length t \<le> ?m" by simp
      with above[rule_format, of "length t"] have "?g (length t) = None" .
      with ne show False by simp
    qed
    then show "length t \<le> length ?token" unfolding klen by simp
  qed
  have dr: "?d @ ?rest = dropWhile isSpace s3" by simp
  have after_w2: "case ?d @ ?rest of [] \<Rightarrow> True | c # cs \<Rightarrow> nonSpace c"
    unfolding dr case_hd_conv nonSpace_def using hd_dropWhile[of isSpace s3] by blast
  have after_d: "case ?rest of [] \<Rightarrow> True | c # cs \<Rightarrow> isLineTerminator c"
    unfolding case_hd_conv using hd_dropWhile[of anyChar "dropWhile isSpace s3"]
    by (auto simp: anyChar_def)
  show ?thesis
  proof (rule exI[of _ ?token], rule exI[of _ w1], rule exI[of _ ?w2], rule exI[of _ ?d],
      rule exI[of _ ?rest], intro conjI)
    show "caps = [?token, w1, ''-'', ?w2, ?d]" by (rule caps)
    show "s = ?token @ w1 @ ''-'' @ ?w2 @ ?d @ ?rest" by (rule s)
    show "?token \<noteq> []" by (rule conf)
    show "list_all nonSpace ?token" by (rule conf)
    show "list_all isSpace w1" by (rule conf)
    show "list_all isSpace ?w2" by (rule conf)
    show "list_all anyChar ?d" by (rule conf)
    show "\<forall>t. patternFrom s t \<longrightarrow> length t \<le> length ?token" by (rule longest)
    show "case ?d @ ?rest of [] \<Rightarrow> True | c # cs \<Rightarrow> nonSpace c" by (rule after_w2)
    show "case ?rest of [] \<Rightarrow> True | c # cs \<Rightarrow> isLineTerminator c" by (rule after_d)
  qed
qed


lemma patternFrom_Nil: "\<not> patternFrom [] t"
  by (simp add: patternFrom_def)

lemma matchTask_firstMatch:
  assumes "matchTask line = Some (token, description)"
  shows "firstMatch line token description"
proof -
  let ?f = "\<lambda>i. matchHere taskPattern (drop i line)"
  from assms obtain caps where ex: "regexExec taskPattern line = Some caps"
    by (cases "regexExec taskPattern line") (auto simp: matchTask_def)
  then have "firstSome ?f [0 ..< Suc (length line)] = Some caps"
    by (simp only: regexExec_def)
  from firstSome_upt_least[OF this] obtain i where
    ii: "i < Suc (length line) \<and> ?f i = Some caps \<and> (\<forall>j<i. ?f j = None)"
    by (rule exE)
  then have i: "i \<le> length line" and fi: "?f i = Some caps" and before: "\<forall>j<i. ?f j = None"
    by simp_all
  from matchHere_taskPattern_shape[OF fi] obtain tok w1 w2 d rest where
    sh: "caps = [tok, w1, ''-'', w2, d] \<and>
           drop i line = tok @ w1 @ ''-'' @ w2 @ d @ rest \<and>
           tok \<noteq> [] \<and> list_all nonSpace tok \<and> list_all isSpace w1 \<and>
           list_all isSpace w2 \<and> list_all anyChar d \<and>
           (\<forall>t. patternFrom (drop i line) t \<longrightarrow> length t \<le> length tok) \<and>
           (case d @ rest of [] \<Rightarrow> True | c # cs \<Rightarrow> nonSpace c) \<and>
           (case rest of [] \<Rightarrow> True | c # cs \<Rightarrow> isLineTerminator c)"
    by blast
  from sh have caps: "caps = [tok, w1, ''-'', w2, d]" by simp
  from assms ex caps have eq: "token = tok" "description = d" by (simp_all add: matchTask_def)
  have len: "length (take i line) = i" using i by simp
  have "line = take i line @ drop i line" by simp
  with sh have l: "line = take i line @ tok @ w1 @ ''-'' @ w2 @ d @ rest" by simp
  have left: "\<forall>j t. j < length (take i line) \<longrightarrow> \<not> patternFrom (drop j line) t"
  proof (intro allI impI)
    fix j t assume "j < length (take i line)"
    then have "j < i" by simp
    with before have "?f j = None" by simp
    then show "\<not> patternFrom (drop j line) t" using patternFrom_matches[of "drop j line" t] by blast
  qed
  show ?thesis unfolding firstMatch_def eq
  proof (rule exI[of _ "take i line"], rule exI[of _ w1], rule exI[of _ w2], rule exI[of _ rest],
      intro conjI)
    show "line = take i line @ tok @ w1 @ ''-'' @ w2 @ d @ rest" by (rule l)
    show "\<forall>j t. j < length (take i line) \<longrightarrow> \<not> patternFrom (drop j line) t" by (rule left)
    show "\<forall>t. patternFrom (drop (length (take i line)) line) t \<longrightarrow> length t \<le> length tok"
      unfolding len using sh by simp
  qed (use sh in simp_all)
qed

lemma patternOccurs_matchTask:
  assumes "patternOccurs line"
  shows "matchTask line \<noteq> None"
proof -
  from assms obtain i t where p: "patternFrom (drop i line) t"
    unfolding patternOccurs_def by blast
  have "i \<le> length line"
  proof (rule ccontr)
    assume "\<not> i \<le> length line"
    then have "drop i line = []" by simp
    with p patternFrom_Nil show False by simp
  qed
  then have mem: "i \<in> set [0 ..< Suc (length line)]" unfolding set_upt by simp
  have "regexExec taskPattern line \<noteq> None"
    unfolding regexExec_def
    by (rule firstSome_not_None[OF mem]) (rule patternFrom_matches[OF p])
  then obtain caps where ex: "regexExec taskPattern line = Some caps" by blast
  from regexExec_sound[OF ex] have "list_all2 conforms taskPattern caps" by simp
  then obtain g1 v1 v2 g2 where "caps = [g1, v1, ''-'', v2, g2]"
    unfolding conforms_taskPattern by blast
  with ex have "matchTask line = Some (g1, g2)" by (simp add: matchTask_def)
  then show ?thesis by simp
qed

lemma firstMatch_patternOccurs:
  assumes "firstMatch line token description"
  shows "patternOccurs line"
proof -
  from assms obtain before w1 w2 rest where
    l: "line = before @ token @ w1 @ ''-'' @ w2 @ description @ rest"
    and c: "token \<noteq> []" "list_all nonSpace token" "list_all isSpace w1"
    unfolding firstMatch_def by blast
  have "drop (length before) line = token @ w1 @ ''-'' @ (w2 @ description @ rest)"
    unfolding l by simp
  with c have "patternFrom (drop (length before) line) token"
    unfolding patternFrom_def by blast
  then show ?thesis unfolding patternOccurs_def by blast
qed

lemma firstMatch_unique:
  assumes "firstMatch line t d" and "firstMatch line t' d'"
  shows "t = t' \<and> d = d'"
proof -
  from assms(1) obtain b w1 w2 r where
    l: "line = b @ t @ w1 @ ''-'' @ w2 @ d @ r"
    and t: "t \<noteq> []" "list_all nonSpace t" and w1: "list_all isSpace w1"
    and w2: "list_all isSpace w2" and d: "list_all anyChar d"
    and left: "\<forall>i u. i < length b \<longrightarrow> \<not> patternFrom (drop i line) u"
    and long: "\<forall>u. patternFrom (drop (length b) line) u \<longrightarrow> length u \<le> length t"
    and aw: "case d @ r of [] \<Rightarrow> True | c # cs \<Rightarrow> nonSpace c"
    and ad: "case r of [] \<Rightarrow> True | c # cs \<Rightarrow> isLineTerminator c"
    unfolding firstMatch_def by blast
  from assms(2) obtain b' w1' w2' r' where
    l': "line = b' @ t' @ w1' @ ''-'' @ w2' @ d' @ r'"
    and t': "t' \<noteq> []" "list_all nonSpace t'" and w1': "list_all isSpace w1'"
    and w2': "list_all isSpace w2'" and d': "list_all anyChar d'"
    and left': "\<forall>i u. i < length b' \<longrightarrow> \<not> patternFrom (drop i line) u"
    and long': "\<forall>u. patternFrom (drop (length b') line) u \<longrightarrow> length u \<le> length t'"
    and aw': "case d' @ r' of [] \<Rightarrow> True | c # cs \<Rightarrow> nonSpace c"
    and ad': "case r' of [] \<Rightarrow> True | c # cs \<Rightarrow> isLineTerminator c"
    unfolding firstMatch_def by blast
  have dl: "drop (length b) line = t @ w1 @ ''-'' @ (w2 @ d @ r)"
    by (subst l) simp
  have dl': "drop (length b') line = t' @ w1' @ ''-'' @ (w2' @ d' @ r')"
    by (subst l') simp
  have p: "patternFrom (drop (length b) line) t"
    unfolding patternFrom_def using dl t w1 by blast
  have p': "patternFrom (drop (length b') line) t'"
    unfolding patternFrom_def using dl' t' w1' by blast
  have "\<not> length b < length b'" using left' p by blast
  moreover have "\<not> length b' < length b" using left p' by blast
  ultimately have lb: "length b = length b'" by simp
  from long p' have "length t' \<le> length t" unfolding lb by blast
  moreover from long' p have "length t \<le> length t'" unfolding lb by blast
  ultimately have lt: "length t = length t'" by simp
  from dl dl' have e1: "t @ (w1 @ ''-'' @ w2 @ d @ r) = t' @ (w1' @ ''-'' @ w2' @ d' @ r')"
    unfolding lb by simp
  with lt have tt: "t = t'" and e2: "w1 @ ''-'' @ w2 @ d @ r = w1' @ ''-'' @ w2' @ d' @ r'"
    by simp_all
  have h: "''-'' @ x = [] \<or> \<not> isSpace (hd (''-'' @ x))" for x
    using hyphen_not_space by simp
  have "w1 = takeWhile isSpace (w1 @ ''-'' @ (w2 @ d @ r))"
    using run_then_stop(1)[OF w1 h] by simp
  also have "\<dots> = takeWhile isSpace (w1' @ ''-'' @ (w2' @ d' @ r'))" using e2 by simp
  also have "\<dots> = w1'" using run_then_stop(1)[OF w1' h] by simp
  finally have ww: "w1 = w1'" .
  with e2 have e3: "w2 @ (d @ r) = w2' @ (d' @ r')" by simp
  from aw have a: "d @ r = [] \<or> \<not> isSpace (hd (d @ r))"
    unfolding case_hd_conv nonSpace_def .
  from aw' have a': "d' @ r' = [] \<or> \<not> isSpace (hd (d' @ r'))"
    unfolding case_hd_conv nonSpace_def .
  have "d @ r = dropWhile isSpace (w2 @ (d @ r))" using run_then_stop(2)[OF w2 a] by simp
  also have "\<dots> = dropWhile isSpace (w2' @ (d' @ r'))" using e3 by simp
  also have "\<dots> = d' @ r'" using run_then_stop(2)[OF w2' a'] by simp
  finally have e4: "d @ r = d' @ r'" .
  from ad have c: "r = [] \<or> \<not> anyChar (hd r)" unfolding case_hd_conv anyChar_def by simp
  from ad' have c': "r' = [] \<or> \<not> anyChar (hd r')" unfolding case_hd_conv anyChar_def by simp
  have "d = takeWhile anyChar (d @ r)" using run_then_stop(1)[OF d c] by simp
  also have "\<dots> = takeWhile anyChar (d' @ r')" using e4 by simp
  also have "\<dots> = d'" using run_then_stop(1)[OF d' c'] by simp
  finally have "d = d'" .
  with tt show ?thesis by simp
qed


text \<open>
  Claim C3, as the code has it. Inside the section a blank line clears the flag and emits
  nothing; a line that starts with \<^verbatim>\<open>---\<close> changes nothing; any other line emits one goal
  exactly when the pattern occurs on it, and nothing otherwise. The goal emitted is the
  one of the reported match and no other: its label is the longest token of the leftmost
  occurrence of the pattern, its detail the description behind the hyphen and the white
  space after it, up to the end of the line or to the first line terminator on it. The
  reported match of a line is unique.
\<close>

theorem lineStep_in_section:
  "lineStep category (True, goals) [] = (False, goals) \<and>
   (startsWith line ''---'' \<longrightarrow> lineStep category (True, goals) line = (True, goals)) \<and>
   (line \<noteq> [] \<and> \<not> startsWith line ''---'' \<longrightarrow>
      (\<forall>token description.
         lineStep category (True, goals) line =
           (True, goals @ [\<lparr>label = token, detail = description\<rparr>])
         \<longleftrightarrow> firstMatch line token description) \<and>
      (lineStep category (True, goals) line = (True, goals) \<longleftrightarrow> \<not> patternOccurs line) \<and>
      (patternOccurs line \<longleftrightarrow> (\<exists>token description. firstMatch line token description))) \<and>
   (\<forall>t d t' d'. firstMatch line t d \<and> firstMatch line t' d' \<longrightarrow> t = t' \<and> d = d')"
proof -
  have div: "lineStep category (True, goals) line = (True, goals)" if "startsWith line ''---''"
  proof -
    from that have "line \<noteq> []" by (auto simp: startsWith_def)
    then show ?thesis using that by (simp add: lineStep_inside emittedBy_def)
  qed
  have occ: "patternOccurs line \<longleftrightarrow> (\<exists>token description. firstMatch line token description)"
  proof
    assume "patternOccurs line"
    from patternOccurs_matchTask[OF this] obtain a where "matchTask line = Some a" by blast
    moreover obtain t d where "a = (t, d)" by (cases a)
    ultimately have "firstMatch line t d" by (simp add: matchTask_firstMatch)
    then show "\<exists>token description. firstMatch line token description" by blast
  next
    assume "\<exists>token description. firstMatch line token description"
    then show "patternOccurs line" using firstMatch_patternOccurs by blast
  qed
  have other:
    "(\<forall>token description.
         lineStep category (True, goals) line =
           (True, goals @ [\<lparr>label = token, detail = description\<rparr>])
         \<longleftrightarrow> firstMatch line token description) \<and>
      (lineStep category (True, goals) line = (True, goals) \<longleftrightarrow> \<not> patternOccurs line)"
    if "line \<noteq> []" and "\<not> startsWith line ''---''"
  proof (cases "matchTask line")
    case None
    have step: "lineStep category (True, goals) line = (True, goals)"
      using that None by (simp add: lineStep_inside emittedBy_def)
    have no: "\<not> patternOccurs line" using patternOccurs_matchTask[of line] None by blast
    then have "\<not> firstMatch line token description" for token description
      using firstMatch_patternOccurs by blast
    with step no show ?thesis by simp
  next
    case (Some a)
    obtain t0 d0 where a: "a = (t0, d0)" by (cases a)
    have step: "lineStep category (True, goals) line = (True, goals @ [\<lparr>label = t0, detail = d0\<rparr>])"
      using that Some a by (simp add: lineStep_inside emittedBy_def)
    have fm: "firstMatch line t0 d0" using Some a by (simp add: matchTask_firstMatch)
    have "firstMatch line token description \<longleftrightarrow> token = t0 \<and> description = d0" for token description
      using fm firstMatch_unique[of line token description t0 d0] by blast
    moreover have "patternOccurs line" using fm by (rule firstMatch_patternOccurs)
    ultimately show ?thesis unfolding step by auto
  qed
  have uniq: "\<forall>t d t' d'. firstMatch line t d \<and> firstMatch line t' d' \<longrightarrow> t = t' \<and> d = d'"
    using firstMatch_unique by blast
  show ?thesis using lineStep_blank div other occ uniq by blast
qed



theorem lineStep_in_section_witness:
  "lineStep ''Build tasks'' (True, []) ''build - Assembles and tests this project.'' =
     (True, [\<lparr>label = ''build'', detail = ''Assembles and tests this project.''\<rparr>]) \<and>
   firstMatch ''build - Assembles and tests this project.'' ''build'' ''Assembles and tests this project.'' \<and>
   lineStep ''Build tasks'' (True, []) ''x-y-z'' = (True, [\<lparr>label = ''x-y'', detail = ''z''\<rparr>]) \<and>
   firstMatch ''x-y-z'' ''x-y'' ''z'' \<and>
   lineStep ''Build tasks'' (True, []) ''No tasks'' = (True, []) \<and>
   \<not> patternOccurs ''No tasks''"
proof -
  let ?l = "''build - Assembles and tests this project.''"
  have "wellFormed (Task ''build'' ''Assembles and tests this project.'')"
    by (simp add: nonSpace_def isSpace_def anyChar_def isLineTerminator_def startsWith_def)
  from matchTask_task_line[OF this]
  have m: "matchTask ?l = Some (''build'', ''Assembles and tests this project.'')" by simp
  have n: "?l \<noteq> [] \<and> \<not> startsWith ?l ''---''" by (simp add: startsWith_def)
  have a: "lineStep ''Build tasks'' (True, []) ?l =
     (True, [] @ [\<lparr>label = ''build'', detail = ''Assembles and tests this project.''\<rparr>])"
    using n m by (simp add: lineStep_inside emittedBy_def)
  from lineStep_in_section [of "''Build tasks''" "[]" ?l] n
  have "\<forall>token description.
         lineStep ''Build tasks'' (True, []) ?l =
           (True, [] @ [\<lparr>label = token, detail = description\<rparr>])
         \<longleftrightarrow> firstMatch ?l token description"
    by blast
  with a have b: "firstMatch ?l ''build'' ''Assembles and tests this project.''" by blast
  have m2: "matchTask ''No tasks'' = None"
    by (simp add: matchTask_def regexExec_def taskPattern_def isSpace_def nonSpace_def anyChar_def
        isLineTerminator_def upt_rec)
  have n2: "''No tasks'' \<noteq> [] \<and> \<not> startsWith ''No tasks'' ''---''" by (simp add: startsWith_def)
  have c: "lineStep ''Build tasks'' (True, []) ''No tasks'' = (True, [])"
    using n2 m2 by (simp add: lineStep_inside emittedBy_def)
  from lineStep_in_section [of "''Build tasks''" "[]" "''No tasks''"] n2
  have "lineStep ''Build tasks'' (True, []) ''No tasks'' = (True, []) \<longleftrightarrow> \<not> patternOccurs ''No tasks''"
    by blast
  with c have d: "\<not> patternOccurs ''No tasks''" by blast
  have n3: "''x-y-z'' \<noteq> [] \<and> \<not> startsWith ''x-y-z'' ''---''" by (simp add: startsWith_def)
  have e: "lineStep ''Build tasks'' (True, []) ''x-y-z'' =
      (True, [] @ [\<lparr>label = ''x-y'', detail = ''z''\<rparr>])"
    by (simp add: lineStep_def startsWith_def
        matchTask_def regexExec_def taskPattern_def isSpace_def nonSpace_def anyChar_def
        isLineTerminator_def upt_rec)
  from lineStep_in_section [of "''Build tasks''" "[]" "''x-y-z''"] n3
  have "\<forall>token description.
         lineStep ''Build tasks'' (True, []) ''x-y-z'' =
           (True, [] @ [\<lparr>label = token, detail = description\<rparr>])
         \<longleftrightarrow> firstMatch ''x-y-z'' token description"
    by blast
  with e have f: "firstMatch ''x-y-z'' ''x-y'' ''z''" by blast
  from a b c d e f show ?thesis by simp
qed

text \<open>
  The description is not always the rest of the line: a carriage return inside a line
  ends it, since \<^verbatim>\<open>.\<close> does not match a line terminator and the pattern is not anchored at
  the end of the line. Nor is the pattern anchored at the start: the token need not be the
  first word of the line.
\<close>

theorem lineStep_in_section_counterexample:
  "''a - b'' @ [CHR 0x0D] @ ''c'' = ''a'' @ '' '' @ ''-'' @ '' '' @ (''b'' @ [CHR 0x0D] @ ''c'') \<and>
   lineStep ''Build tasks'' (True, []) (''a - b'' @ [CHR 0x0D] @ ''c'') =
     (True, [\<lparr>label = ''a'', detail = ''b''\<rparr>]) \<and>
   ''b'' \<noteq> ''b'' @ [CHR 0x0D] @ ''c'' \<and>
   lineStep ''Build tasks'' (True, []) ''foo bar - baz'' =
     (True, [\<lparr>label = ''bar'', detail = ''baz''\<rparr>]) \<and>
   parseAvailableGradleGoals (joinLines [''Build tasks'', ''a - b'' @ [CHR 0x0D] @ ''c'', []]) ''Build tasks'' =
     [\<lparr>label = ''a'', detail = ''b''\<rparr>]"
  by (simp add: parseAvailableGradleGoals_def trim_def lineStep_def startsWith_def
      matchTask_def regexExec_def taskPattern_def isSpace_def nonSpace_def anyChar_def
      isLineTerminator_def upt_rec)

section \<open>Goals listed twice\<close>

text \<open>
  Claim C4, as the code has it. The sequences of the Maven catalog list no goal twice.
  The parser copies the task lines of a section as the report has them and removes no
  duplicate: for a report with the section once, well-formed, and with task names that
  differ, the sequence lists no goal twice.
\<close>

theorem catalog_labels_distinct:
  assumes "splitOn CHR 0x0A out = pre @ header # sect @ blank # post"
    and "trim header = category"
    and "trim blank = []"
    and "\<forall>l\<in>set (pre @ post). trim l \<noteq> category"
    and "map trim sect = map render entries"
    and "list_all wellFormed entries"
    and "distinct (map label (tasksOf entries))"
  shows "distinct (map label (parseAvailableGradleGoals out category)) \<and>
         distinct (map label (buildGoals getAvailableMavenGoals)) \<and>
         distinct (map label (deployGoals getAvailableMavenGoals))"
proof -
  have "parseAvailableGradleGoals out category = tasksOf entries"
    using assms(1-6) by (rule parse_section_entries)
  with assms(7) show ?thesis by (simp add: getAvailableMavenGoals_def)
qed

theorem catalog_labels_distinct_witness:
  "distinct (map label (parseAvailableGradleGoals sampleReport ''Build tasks'')) \<and>
   map label (parseAvailableGradleGoals sampleReport ''Build tasks'') = [''assemble'', ''build'']"
proof -
  have lines: "splitOn CHR 0x0A sampleReport =
      [''> Task :tasks'', []] @ ''Build tasks'' #
      [''-----------'', ''assemble - Assembles the outputs of this project.'',
       ''build - Assembles and tests this project.''] @ [] #
      [''Upload tasks'', ''------------'', [], ''Help tasks'', ''----------'',
       ''help - Displays a help message.'']"
    by (simp add: sampleReport_def)
  have "distinct (map label (parseAvailableGradleGoals sampleReport ''Build tasks''))"
    by (rule conjunct1, rule catalog_labels_distinct [OF lines, where
         entries = "[Divider ''-----------'',
              Task ''assemble'' ''Assembles the outputs of this project.'',
              Task ''build'' ''Assembles and tests this project.'']"])
       (simp_all add: trim_def isSpace_def startsWith_def nonSpace_def anyChar_def isLineTerminator_def)
  moreover have "map label (parseAvailableGradleGoals sampleReport ''Build tasks'') = [''assemble'', ''build'']"
    using parse_section_entries [OF lines, where category = "''Build tasks''" and
         entries = "[Divider ''-----------'',
              Task ''assemble'' ''Assembles the outputs of this project.'',
              Task ''build'' ''Assembles and tests this project.'']"]
    by (simp add: trim_def isSpace_def startsWith_def nonSpace_def anyChar_def isLineTerminator_def)
  ultimately show ?thesis by (rule conjI)
qed

text \<open>
  A report that lists a task twice in the section gives a catalog that lists it twice.
\<close>

theorem catalog_labels_distinct_counterexample:
  "builderInit (sampleHost [\<lparr>fsPath = ''/proj/gradlew''\<rparr>] []
      (joinLines [''Build tasks'', ''run - Runs the application'', ''run - Runs it again'', []])
      None [] None None) =
     Inr \<lparr>buildGoals = [\<lparr>label = ''run'', detail = ''Runs the application''\<rparr>,
                         \<lparr>label = ''run'', detail = ''Runs it again''\<rparr>],
          deployGoals = []\<rparr> \<and>
   \<not> distinct (map label (buildGoals
     \<lparr>buildGoals = [\<lparr>label = ''run'', detail = ''Runs the application''\<rparr>,
                    \<lparr>label = ''run'', detail = ''Runs it again''\<rparr>],
      deployGoals = []\<rparr>))"
  by (simp add: builderInit_def buildWrapper_def getAvailableGradleGoals_def sampleHost_def
      parseAvailableGradleGoals_def trim_def lineStep_def startsWith_def
      matchTask_def regexExec_def taskPattern_def isSpace_def nonSpace_def anyChar_def
      isLineTerminator_def upt_rec)

end
